theory Spec2Isabelle
  imports Complex_Main
begin

section \<open>Values of the widget module\<close>

text \<open>
  Objects are identified by natural numbers: a widget by its \<open>wid\<close>, a layout manager
  by its \<open>lid\<close>. A reference that may be \<open>null\<close> is an \<open>option\<close>.
\<close>

type_synonym wid = nat
type_synonym lid = nat

text \<open>
  A JavaScript \<open>number\<close>. The geometry code only compares numbers and takes minima
  and maxima, so a finite double is represented by the real number it denotes;
  \<open>NaN\<close> and the two infinities are kept apart because \<open>!==\<close>, \<open>Math.min\<close> and
  \<open>Math.max\<close> treat them specially.
\<close>

datatype number = NaN | NegInfinity | Finite real | Infinity

fun num_le :: "number \<Rightarrow> number \<Rightarrow> bool" where
  "num_le NaN b = False"
| "num_le a NaN = False"
| "num_le NegInfinity b = True"
| "num_le a Infinity = True"
| "num_le (Finite a) (Finite b) = (a \<le> b)"
| "num_le a b = False"

text \<open>\<open>a !== b\<close> on numbers: \<open>NaN\<close> differs from every number, itself included.\<close>

definition strict_neq :: "number \<Rightarrow> number \<Rightarrow> bool" where
  "strict_neq a b = (a = NaN \<or> b = NaN \<or> a \<noteq> b)"

definition Math_min :: "number \<Rightarrow> number \<Rightarrow> number" where
  "Math_min a b = (if a = NaN \<or> b = NaN then NaN else if num_le a b then a else b)"

definition Math_max :: "number \<Rightarrow> number \<Rightarrow> number" where
  "Math_max a b = (if a = NaN \<or> b = NaN then NaN else if num_le a b then b else a)"

text \<open>
  Messages. \<open>Message\<close> carries only its type string; \<open>ChildMessage\<close> adds the child;
  \<open>MoveMessage\<close> and \<open>ResizeMessage\<close> carry the old and the new pair and have the fixed
  types \<open>move\<close> and \<open>resize\<close>.
\<close>

datatype msg =
    Message string
  | ChildMessage string wid
  | MoveMessage number number number number
  | ResizeMessage number number number number

fun mtype :: "msg \<Rightarrow> string" where
  "mtype (Message t) = t"
| "mtype (ChildMessage t c) = t"
| "mtype (MoveMessage ox oy nx ny) = ''move''"
| "mtype (ResizeMessage ow oh nw nh) = ''resize''"

text \<open>The \<open>child\<close> property of a message; \<open>None\<close> where the object has none.\<close>

fun child :: "msg \<Rightarrow> wid option" where
  "child (ChildMessage t c) = Some c"
| "child m = None"

text \<open>
  Modelled from the spec: the enumeration \<open>WidgetFlag\<close> is declared outside the source
  file; the spec describes the flags as a set of independent booleans, so the bit field
  \<open>_flags\<close> is the set of the flags whose bit is set.
\<close>

datatype WidgetFlag = IsAttached | IsDisposed | IsHidden | IsVisible | DisallowLayoutChange

text \<open>
  Modelled from the spec: the box metrics of a surface, of which the widget reads the
  size limits.
\<close>

record IBoxSizing =
  minWidth :: number
  maxWidth :: number
  minHeight :: number
  maxHeight :: number

text \<open>
  Modelled from the spec: the visual surface. A DOM element is either a host element
  or the node created by a widget's constructor. Of an element the widget uses the
  class tokens, the parent element, four style properties (the number written, which
  the code suffixes with \<open>px\<close>) and the box metrics \<open>createBoxSizing\<close> computes for it.
\<close>

datatype elem = HostElement nat | WidgetNode wid

record HTMLElement =
  classList :: "string list"
  parentNode :: "elem option"
  style_left :: "number option"
  style_top :: "number option"
  style_width :: "number option"
  style_height :: "number option"
  computedBox :: IBoxSizing

text \<open>
  Modelled from the spec: a layout strategy, with its single-owner \<open>parent\<close> slot.
  \<open>invalidate\<close> and \<open>dispose\<close> are recorded on the object.
\<close>

record Layout =
  l_parent :: "wid option"
  l_disposed :: bool
  l_invalidated :: nat

text \<open>
  The private fields of \<open>Widget\<close>. The field \<open>_children\<close> is initialised with a new
  array and never assigned again, so it is the constant reference \<open>ChildrenOf w\<close>
  into the store of arrays; the array itself is mutated in place.
\<close>

record Widget =
  w_node :: "elem option"
  w_layout :: "lid option"
  w_parent :: "wid option"
  w_boxSizing :: "IBoxSizing option"
  w_x :: number
  w_y :: number
  w_width :: number
  w_height :: number
  w_flags :: "WidgetFlag set"

datatype aref = ChildrenOf wid | Sliced nat

text \<open>
  The state of the program: the objects, the arrays, the DOM, and what the external
  collaborators hold: the messages the dispatcher delivered with \<open>sendMessage\<close>, in
  order, with their targets; the queue of posted messages and the installed message
  filters of each handler; the \<open>disposed\<close> signals emitted, in order, by sender.
\<close>

record state =
  widgets :: "wid \<Rightarrow> Widget"
  arrays :: "aref \<Rightarrow> wid option list"
  nextArray :: nat
  elems :: "elem \<Rightarrow> HTMLElement"
  layouts :: "lid \<Rightarrow> Layout"
  delivered :: "(wid \<times> msg) list"
  pending :: "wid \<Rightarrow> msg list"
  filters :: "wid \<Rightarrow> lid list"
  emitted :: "wid list"

text \<open>
  A call either returns, throws (the state at the throw is kept, to show what had been
  written by then), or exhausts the fuel of the recursion through the dispatcher.
\<close>

datatype error = Error string | TypeError | NotFoundError

datatype 'a result = OutOfFuel | Throw error state | Ok 'a

definition seq :: "state result \<Rightarrow> (state \<Rightarrow> 'a result) \<Rightarrow> 'a result" where
  "seq r f = (case r of OutOfFuel \<Rightarrow> OutOfFuel | Throw e s \<Rightarrow> Throw e s | Ok s \<Rightarrow> f s)"

type_synonym sender = "wid \<Rightarrow> msg \<Rightarrow> state \<Rightarrow> state result"

section \<open>Field access and flags\<close>

definition updW :: "wid \<Rightarrow> (Widget \<Rightarrow> Widget) \<Rightarrow> state \<Rightarrow> state" where
  "updW w f s = s\<lparr>widgets := (widgets s)(w := f (widgets s w))\<rparr>"

definition updE :: "elem \<Rightarrow> (HTMLElement \<Rightarrow> HTMLElement) \<Rightarrow> state \<Rightarrow> state" where
  "updE e f s = s\<lparr>elems := (elems s)(e := f (elems s e))\<rparr>"

definition updL :: "lid \<Rightarrow> (Layout \<Rightarrow> Layout) \<Rightarrow> state \<Rightarrow> state" where
  "updL l f s = s\<lparr>layouts := (layouts s)(l := f (layouts s l))\<rparr>"

definition updA :: "aref \<Rightarrow> (wid option list \<Rightarrow> wid option list) \<Rightarrow> state \<Rightarrow> state" where
  "updA a f s = s\<lparr>arrays := (arrays s)(a := f (arrays s a))\<rparr>"

definition testFlag :: "state \<Rightarrow> wid \<Rightarrow> WidgetFlag \<Rightarrow> bool" where
  "testFlag s w flag = (flag \<in> w_flags (widgets s w))"

definition setFlag :: "wid \<Rightarrow> WidgetFlag \<Rightarrow> state \<Rightarrow> state" where
  "setFlag w flag = updW w (\<lambda>r. r\<lparr>w_flags := insert flag (w_flags r)\<rparr>)"

definition clearFlag :: "wid \<Rightarrow> WidgetFlag \<Rightarrow> state \<Rightarrow> state" where
  "clearFlag w flag = updW w (\<lambda>r. r\<lparr>w_flags := w_flags r - {flag}\<rparr>)"

definition isAttached :: "state \<Rightarrow> wid \<Rightarrow> bool" where
  "isAttached s w = testFlag s w IsAttached"

definition isDisposed :: "state \<Rightarrow> wid \<Rightarrow> bool" where
  "isDisposed s w = testFlag s w IsDisposed"

definition isHidden :: "state \<Rightarrow> wid \<Rightarrow> bool" where
  "isHidden s w = testFlag s w IsHidden"

definition isVisible :: "state \<Rightarrow> wid \<Rightarrow> bool" where
  "isVisible s w = testFlag s w IsVisible"

definition WIDGET_CLASS :: string where
  "WIDGET_CLASS = ''p-Widget''"

definition HIDDEN_CLASS :: string where
  "HIDDEN_CLASS = ''p-mod-hidden''"

text \<open>\<open>this._node.classList.add(name)\<close>; a null \<open>_node\<close> raises a \<open>TypeError\<close>.\<close>

definition addClass :: "wid \<Rightarrow> string \<Rightarrow> state \<Rightarrow> state result" where
  "addClass w name s =
     (case w_node (widgets s w) of
        None \<Rightarrow> Throw TypeError s
      | Some n \<Rightarrow> Ok (updE n (\<lambda>e. e\<lparr>classList :=
                   (if name \<in> set (classList e) then classList e else classList e @ [name])\<rparr>) s))"

definition removeClass :: "wid \<Rightarrow> string \<Rightarrow> state \<Rightarrow> state result" where
  "removeClass w name s =
     (case w_node (widgets s w) of
        None \<Rightarrow> Throw TypeError s
      | Some n \<Rightarrow> Ok (updE n (\<lambda>e. e\<lparr>classList := removeAll name (classList e)\<rparr>) s))"

section \<open>The external collaborators\<close>

text \<open>
  Modelled from the spec: \<open>host.appendChild(node)\<close> and \<open>host.removeChild(node)\<close> of the
  visual surface. Insertion makes \<open>host\<close> the parent of the node; removal of a node
  that is not a child of \<open>host\<close> raises \<open>NotFoundError\<close>, and a null argument a
  \<open>TypeError\<close>.
\<close>

definition appendChild :: "elem \<Rightarrow> elem option \<Rightarrow> state \<Rightarrow> state result" where
  "appendChild host n s =
     (case n of
        None \<Rightarrow> Throw TypeError s
      | Some c \<Rightarrow> Ok (updE c (\<lambda>e. e\<lparr>parentNode := Some host\<rparr>) s))"

definition removeChild :: "elem \<Rightarrow> elem option \<Rightarrow> state \<Rightarrow> state result" where
  "removeChild host n s =
     (case n of
        None \<Rightarrow> Throw TypeError s
      | Some c \<Rightarrow>
          if parentNode (elems s c) = Some host
          then Ok (updE c (\<lambda>e. e\<lparr>parentNode := None\<rparr>) s)
          else Throw NotFoundError s)"

text \<open>\<open>this._node.appendChild(child._node)\<close> and \<open>this._node.removeChild(child._node)\<close>.\<close>

definition node_appendChild :: "wid \<Rightarrow> wid \<Rightarrow> state \<Rightarrow> state result" where
  "node_appendChild w c s =
     (case w_node (widgets s w) of
        None \<Rightarrow> Throw TypeError s
      | Some host \<Rightarrow> appendChild host (w_node (widgets s c)) s)"

definition node_removeChild :: "wid \<Rightarrow> wid \<Rightarrow> state \<Rightarrow> state result" where
  "node_removeChild w c s =
     (case w_node (widgets s w) of
        None \<Rightarrow> Throw TypeError s
      | Some host \<Rightarrow> removeChild host (w_node (widgets s c)) s)"

text \<open>
  Modelled from the spec: the layout strategy's \<open>invalidate()\<close>, \<open>dispose()\<close> and the
  assignment to its \<open>parent\<close> slot.
\<close>

definition layout_invalidate :: "lid \<Rightarrow> state \<Rightarrow> state" where
  "layout_invalidate l = updL l (\<lambda>r. r\<lparr>l_invalidated := Suc (l_invalidated r)\<rparr>)"

definition layout_dispose :: "lid \<Rightarrow> state \<Rightarrow> state" where
  "layout_dispose l = updL l (\<lambda>r. r\<lparr>l_parent := None, l_disposed := True\<rparr>)"

definition layout_set_parent :: "lid \<Rightarrow> wid \<Rightarrow> state \<Rightarrow> state" where
  "layout_set_parent l w = updL l (\<lambda>r. r\<lparr>l_parent := Some w\<rparr>)"

text \<open>
  Modelled from the spec: the dispatcher's filter list and \<open>clearMessageData\<close>, which
  drops the pending messages and the filters of a handler.
\<close>

definition installMessageFilter :: "wid \<Rightarrow> lid \<Rightarrow> state \<Rightarrow> state" where
  "installMessageFilter w l s = s\<lparr>filters := (filters s)(w := filters s w @ [l])\<rparr>"

definition removeMessageFilter :: "wid \<Rightarrow> lid \<Rightarrow> state \<Rightarrow> state" where
  "removeMessageFilter w l s = s\<lparr>filters := (filters s)(w := removeAll l (filters s w))\<rparr>"

definition clearMessageData :: "wid \<Rightarrow> state \<Rightarrow> state" where
  "clearMessageData w s = s\<lparr>pending := (pending s)(w := []), filters := (filters s)(w := [])\<rparr>"

text \<open>Modelled from the spec: \<open>algo.remove(array, value)\<close> removes the first occurrence.\<close>

definition algo_remove :: "aref \<Rightarrow> wid \<Rightarrow> state \<Rightarrow> state" where
  "algo_remove a w = updA a (remove1 (Some w))"

text \<open>Modelled from the spec: the \<open>disposed\<close> signal; each \<open>emit\<close> is recorded.\<close>

definition disposed_emit :: "wid \<Rightarrow> state \<Rightarrow> state" where
  "disposed_emit w s = s\<lparr>emitted := emitted s @ [w]\<rparr>"

section \<open>Widget: message handling\<close>

text \<open>
  The dispatcher's \<open>sendMessage\<close> is imported by the source file, so the methods that
  send messages take it as the parameter \<open>send\<close>. The loops of \<open>sendAll\<close> and
  \<open>sendNonHidden\<close> run over the array they are given; a null entry makes the
  dispatcher, or the read of \<open>isHidden\<close>, raise a \<open>TypeError\<close>.
\<close>

primrec sendAll :: "sender \<Rightarrow> wid option list \<Rightarrow> msg \<Rightarrow> state \<Rightarrow> state result" where
  "sendAll send [] m s = Ok s"
| "sendAll send (c # cs) m s =
     (case c of
        None \<Rightarrow> Throw TypeError s
      | Some h \<Rightarrow> seq (send h m s) (sendAll send cs m))"

primrec sendNonHidden :: "sender \<Rightarrow> wid option list \<Rightarrow> msg \<Rightarrow> state \<Rightarrow> state result" where
  "sendNonHidden send [] m s = Ok s"
| "sendNonHidden send (c # cs) m s =
     (case c of
        None \<Rightarrow> Throw TypeError s
      | Some h \<Rightarrow>
          if \<not> isHidden s h then seq (send h m s) (sendNonHidden send cs m)
          else sendNonHidden send cs m s)"

text \<open>The setter of \<open>parent\<close>.\<close>

definition set_parent :: "sender \<Rightarrow> wid \<Rightarrow> wid option \<Rightarrow> state \<Rightarrow> state result" where
  "set_parent send w parent s =
     (let oldParent = w_parent (widgets s w) in
      if oldParent = parent then Ok s
      else
        seq (case oldParent of
               None \<Rightarrow> Ok s
             | Some op \<Rightarrow>
                 send op (ChildMessage ''child-removed'' w)
                   (algo_remove (ChildrenOf op) w (updW w (\<lambda>r. r\<lparr>w_parent := None\<rparr>) s)))
         (\<lambda>s1.
        seq (case parent of
               None \<Rightarrow> Ok s1
             | Some np \<Rightarrow>
                 send np (ChildMessage ''child-added'' w)
                   (updA (ChildrenOf np) (\<lambda>cs. cs @ [Some w])
                      (updW w (\<lambda>r. r\<lparr>w_parent := Some np\<rparr>) s1)))
         (\<lambda>s2. send w (Message ''parent-changed'') s2)))"

definition onClose :: "sender \<Rightarrow> wid \<Rightarrow> msg \<Rightarrow> state \<Rightarrow> state result" where
  "onClose send w m s = set_parent send w None s"

definition onChildAdded :: "sender \<Rightarrow> wid \<Rightarrow> msg \<Rightarrow> state \<Rightarrow> state result" where
  "onChildAdded send w m s =
     (case child m of
        None \<Rightarrow> Throw TypeError s
      | Some c \<Rightarrow>
          if isAttached s w then
            seq (send c (Message ''before-attach'') s) (\<lambda>s1.
            seq (node_appendChild w c s1)
                (send c (Message ''after-attach'')))
          else node_appendChild w c s)"

definition onChildRemoved :: "sender \<Rightarrow> wid \<Rightarrow> msg \<Rightarrow> state \<Rightarrow> state result" where
  "onChildRemoved send w m s =
     (case child m of
        None \<Rightarrow> Throw TypeError s
      | Some c \<Rightarrow>
          if isAttached s w then
            seq (send c (Message ''before-detach'') s) (\<lambda>s1.
            seq (node_removeChild w c s1)
                (send c (Message ''after-detach'')))
          else node_removeChild w c s)"

text \<open>
  \<open>processMessage\<close>: the switch on the type of the message. The handlers \<open>onMove\<close>,
  \<open>onResize\<close>, \<open>onBeforeShow\<close>, \<open>onAfterShow\<close>, \<open>onBeforeHide\<close>, \<open>onAfterHide\<close>,
  \<open>onBeforeAttach\<close>, \<open>onAfterAttach\<close>, \<open>onBeforeDetach\<close> and \<open>onAfterDetach\<close> of the
  class have empty bodies.
\<close>

definition processMessage :: "sender \<Rightarrow> wid \<Rightarrow> msg \<Rightarrow> state \<Rightarrow> state result" where
  "processMessage send w m s =
     (let t = mtype m in
      if t = ''move'' then Ok s
      else if t = ''resize'' then Ok s
      else if t = ''child-added'' then onChildAdded send w m s
      else if t = ''child-removed'' then onChildRemoved send w m s
      else if t = ''before-show'' then sendNonHidden send (arrays s (ChildrenOf w)) m s
      else if t = ''after-show'' then
        (let s1 = setFlag w IsVisible s in sendNonHidden send (arrays s1 (ChildrenOf w)) m s1)
      else if t = ''before-hide'' then sendNonHidden send (arrays s (ChildrenOf w)) m s
      else if t = ''after-hide'' then
        (let s1 = clearFlag w IsVisible s in sendNonHidden send (arrays s1 (ChildrenOf w)) m s1)
      else if t = ''before-attach'' then
        (let s1 = updW w (\<lambda>r. r\<lparr>w_boxSizing := None\<rparr>) s
         in sendAll send (arrays s1 (ChildrenOf w)) m s1)
      else if t = ''after-attach'' then
        (let parent = w_parent (widgets s w);
             visible = (\<not> isHidden s w \<and> (case parent of None \<Rightarrow> True | Some p \<Rightarrow> isVisible s p));
             s1 = (if visible then setFlag w IsVisible s else s);
             s2 = setFlag w IsAttached s1
         in sendAll send (arrays s2 (ChildrenOf w)) m s2)
      else if t = ''before-detach'' then sendAll send (arrays s (ChildrenOf w)) m s
      else if t = ''after-detach'' then
        (let s1 = clearFlag w IsAttached (clearFlag w IsVisible s)
         in sendAll send (arrays s1 (ChildrenOf w)) m s1)
      else if t = ''close'' then onClose send w m s
      else Ok s)"

text \<open>
  Modelled from the spec: \<open>sendMessage(handler, msg)\<close>, the synchronous, immediately
  recursive delivery of the dispatcher. The delivery is recorded, then the handler
  processes the message; the installed filters are not taken to stop a message. The
  fuel bounds the depth of nested deliveries.
\<close>

primrec sendMessage :: "nat \<Rightarrow> wid \<Rightarrow> msg \<Rightarrow> state \<Rightarrow> state result" where
  "sendMessage 0 h m s = OutOfFuel"
| "sendMessage (Suc n) h m s =
     processMessage (sendMessage n) h m (s\<lparr>delivered := delivered s @ [(h, m)]\<rparr>)"

text \<open>
  \<open>compressMessage\<close>, and modelled from the spec: \<open>postMessage(handler, msg)\<close>, which
  queues the message unless the handler declares it merged into a pending one, and the
  later delivery of the queue.
\<close>

definition compressMessage :: "msg \<Rightarrow> msg list \<Rightarrow> bool" where
  "compressMessage m pend =
     (if mtype m = ''layout-request''
      then list_ex (\<lambda>other. mtype other = ''layout-request'') pend
      else False)"

definition postMessage :: "wid \<Rightarrow> msg \<Rightarrow> state \<Rightarrow> state" where
  "postMessage h m s =
     (if compressMessage m (pending s h) then s
      else s\<lparr>pending := (pending s)(h := pending s h @ [m])\<rparr>)"

primrec deliverAll :: "sender \<Rightarrow> wid \<Rightarrow> msg list \<Rightarrow> state \<Rightarrow> state result" where
  "deliverAll send h [] s = Ok s"
| "deliverAll send h (m # ms) s = seq (send h m s) (deliverAll send h ms)"

definition drainQueue :: "sender \<Rightarrow> wid \<Rightarrow> state \<Rightarrow> state result" where
  "drainQueue send h s = deliverAll send h (pending s h) (s\<lparr>pending := (pending s)(h := [])\<rparr>)"

section \<open>Widget: geometry\<close>

text \<open>
  \<open>updateGeometry(force)\<close> calls itself on the parent, without an argument, so with
  \<open>force = false\<close>. The fuel bounds the number of ancestors visited.
\<close>

primrec updateGeometry :: "nat \<Rightarrow> wid \<Rightarrow> bool \<Rightarrow> state \<Rightarrow> state result" where
  "updateGeometry 0 w force s = OutOfFuel"
| "updateGeometry (Suc n) w force s =
     (case w_parent (widgets s w) of
        None \<Rightarrow> Ok s
      | Some parent \<Rightarrow>
          if isHidden s w \<and> \<not> force then Ok s
          else
            (case w_layout (widgets s parent) of
               Some l \<Rightarrow> Ok (layout_invalidate l s)
             | None \<Rightarrow>
                 updateGeometry n parent False
                   (postMessage parent (Message ''layout-request'') s)))"

text \<open>
  \<open>boxSizing()\<close> returns the cached metrics, or computes them from the node and caches
  them; \<open>createBoxSizing\<close> of a null node raises a \<open>TypeError\<close>.
\<close>

definition boxSizing :: "wid \<Rightarrow> state \<Rightarrow> (IBoxSizing \<times> state) result" where
  "boxSizing w s =
     (case w_boxSizing (widgets s w) of
        Some b \<Rightarrow> Ok (b, s)
      | None \<Rightarrow>
          (case w_node (widgets s w) of
             None \<Rightarrow> Throw TypeError s
           | Some n \<Rightarrow>
               (let b = computedBox (elems s n)
                in Ok (b, updW w (\<lambda>r. r\<lparr>w_boxSizing := Some b\<rparr>) s))))"

definition invalidateBoxData :: "nat \<Rightarrow> wid \<Rightarrow> state \<Rightarrow> state result" where
  "invalidateBoxData fuel w s =
     (let s1 = updW w (\<lambda>r. r\<lparr>w_boxSizing := None\<rparr>) s;
          s2 = (case w_layout (widgets s1 w) of
                  Some l \<Rightarrow> layout_invalidate l s1
                | None \<Rightarrow> postMessage w (Message ''layout-request'') s1)
      in updateGeometry fuel w False s2)"

definition setGeometry ::
  "sender \<Rightarrow> wid \<Rightarrow> number \<Rightarrow> number \<Rightarrow> number \<Rightarrow> number \<Rightarrow> state \<Rightarrow> state result" where
  "setGeometry send w x y width height s =
     (let oldX = w_x (widgets s w);
          oldY = w_y (widgets s w);
          oldW = w_width (widgets s w);
          oldH = w_height (widgets s w)
      in case boxSizing w s of
           OutOfFuel \<Rightarrow> OutOfFuel
         | Throw e t \<Rightarrow> Throw e t
         | Ok (box, s0) \<Rightarrow>
             (case w_node (widgets s0 w) of
                None \<Rightarrow> Throw TypeError s0
              | Some n \<Rightarrow>
                  (let w' = Math_max (minWidth box) (Math_min width (maxWidth box));
                       h = Math_max (minHeight box) (Math_min height (maxHeight box));
                       s1 = (if strict_neq oldX x
                             then updE n (\<lambda>e. e\<lparr>style_left := Some x\<rparr>)
                                    (updW w (\<lambda>r. r\<lparr>w_x := x\<rparr>) s0)
                             else s0);
                       s2 = (if strict_neq oldY y
                             then updE n (\<lambda>e. e\<lparr>style_top := Some y\<rparr>)
                                    (updW w (\<lambda>r. r\<lparr>w_y := y\<rparr>) s1)
                             else s1);
                       s3 = (if strict_neq oldW w'
                             then updE n (\<lambda>e. e\<lparr>style_width := Some w'\<rparr>)
                                    (updW w (\<lambda>r. r\<lparr>w_width := w'\<rparr>) s2)
                             else s2);
                       s4 = (if strict_neq oldH h
                             then updE n (\<lambda>e. e\<lparr>style_height := Some h\<rparr>)
                                    (updW w (\<lambda>r. r\<lparr>w_height := h\<rparr>) s3)
                             else s3);
                       isMove = (strict_neq oldX x \<or> strict_neq oldY y);
                       isResize = (strict_neq oldW w' \<or> strict_neq oldH h)
                   in seq (if isMove then send w (MoveMessage oldX oldY x y) s4 else Ok s4)
                        (\<lambda>s5. if isResize then send w (ResizeMessage oldW oldH w' h) s5
                               else Ok s5))))"

definition move :: "sender \<Rightarrow> wid \<Rightarrow> number \<Rightarrow> number \<Rightarrow> state \<Rightarrow> state result" where
  "move send w x y s = setGeometry send w x y (w_width (widgets s w)) (w_height (widgets s w)) s"

definition resize :: "sender \<Rightarrow> wid \<Rightarrow> number \<Rightarrow> number \<Rightarrow> state \<Rightarrow> state result" where
  "resize send w width height s =
     setGeometry send w (w_x (widgets s w)) (w_y (widgets s w)) width height s"

section \<open>Widget: visibility and attachment\<close>

definition show_widget :: "sender \<Rightarrow> nat \<Rightarrow> wid \<Rightarrow> state \<Rightarrow> state result" where
  "show_widget send fuel w s =
     (if \<not> isHidden s w then Ok s
      else
        (let parent = w_parent (widgets s w) in
         seq (if isAttached s w \<and> (case parent of None \<Rightarrow> True | Some p \<Rightarrow> isVisible s p)
              then
                seq (send w (Message ''before-show'') s) (\<lambda>s1.
                seq (removeClass w HIDDEN_CLASS s1) (\<lambda>s2.
                send w (Message ''after-show'') (clearFlag w IsHidden s2)))
              else
                seq (removeClass w HIDDEN_CLASS s) (\<lambda>s1. Ok (clearFlag w IsHidden s1)))
          (\<lambda>s3.
         seq (case parent of
                None \<Rightarrow> Ok s3
              | Some p \<Rightarrow> send p (ChildMessage ''child-shown'' w) s3)
          (\<lambda>s4. updateGeometry fuel w False s4))))"

definition hide :: "sender \<Rightarrow> nat \<Rightarrow> wid \<Rightarrow> state \<Rightarrow> state result" where
  "hide send fuel w s =
     (if isHidden s w then Ok s
      else
        (let parent = w_parent (widgets s w) in
         seq (if isAttached s w \<and> (case parent of None \<Rightarrow> True | Some p \<Rightarrow> isVisible s p)
              then
                seq (send w (Message ''before-hide'') s) (\<lambda>s1.
                seq (addClass w HIDDEN_CLASS s1) (\<lambda>s2.
                send w (Message ''after-hide'') (setFlag w IsHidden s2)))
              else
                seq (addClass w HIDDEN_CLASS s) (\<lambda>s1. Ok (setFlag w IsHidden s1)))
          (\<lambda>s3.
         seq (case parent of
                None \<Rightarrow> Ok s3
              | Some p \<Rightarrow> send p (ChildMessage ''child-hidden'' w) s3)
          (\<lambda>s4. updateGeometry fuel w True s4))))"

definition close :: "sender \<Rightarrow> wid \<Rightarrow> state \<Rightarrow> state result" where
  "close send w s = send w (Message ''close'') s"

definition attach :: "sender \<Rightarrow> wid \<Rightarrow> elem \<Rightarrow> state \<Rightarrow> state result" where
  "attach send w host s =
     (if w_parent (widgets s w) \<noteq> None
      then Throw (Error ''cannot attach a non-root widget to the DOM'') s
      else
        seq (send w (Message ''before-attach'') s) (\<lambda>s1.
        seq (appendChild host (w_node (widgets s1 w)) s1)
            (send w (Message ''after-attach''))))"

definition detach :: "sender \<Rightarrow> wid \<Rightarrow> state \<Rightarrow> state result" where
  "detach send w s =
     (if w_parent (widgets s w) \<noteq> None
      then Throw (Error ''cannot dettach a non-root widget from the DOM'') s
      else
        (case w_node (widgets s w) of
           None \<Rightarrow> Throw TypeError s
         | Some n \<Rightarrow>
             (case parentNode (elems s n) of
                None \<Rightarrow> Ok s
              | Some host \<Rightarrow>
                  seq (send w (Message ''before-detach'') s) (\<lambda>s1.
                  seq (removeChild host (w_node (widgets s1 w)) s1)
                      (send w (Message ''after-detach''))))))"

section \<open>Widget: layout, children, disposal\<close>

text \<open>The setter of \<open>layout\<close>.\<close>

definition set_layout :: "sender \<Rightarrow> wid \<Rightarrow> lid option \<Rightarrow> state \<Rightarrow> state result" where
  "set_layout send w layout s =
     (let oldLayout = w_layout (widgets s w) in
      if oldLayout = layout then Ok s
      else if testFlag s w DisallowLayoutChange
      then Throw (Error ''cannot change widget layout'') s
      else if (case layout of None \<Rightarrow> False | Some l \<Rightarrow> l_parent (layouts s l) \<noteq> None)
      then Throw (Error ''layout already installed on a widget'') s
      else
        (let s1 = (case oldLayout of
                     None \<Rightarrow> s
                   | Some ol \<Rightarrow>
                       layout_dispose ol
                         (removeMessageFilter w ol (updW w (\<lambda>r. r\<lparr>w_layout := None\<rparr>) s)));
             s2 = (case layout of
                     None \<Rightarrow> s1
                   | Some l \<Rightarrow>
                       layout_set_parent l w
                         (installMessageFilter w l (updW w (\<lambda>r. r\<lparr>w_layout := Some l\<rparr>) s1)))
         in send w (Message ''layout-changed'') s2))"

text \<open>
  \<open>children()\<close> returns \<open>this._children.slice()\<close>: a newly allocated array with the
  same elements.
\<close>

definition children :: "wid \<Rightarrow> state \<Rightarrow> aref \<times> state" where
  "children w s =
     (let a = Sliced (nextArray s)
      in (a, s\<lparr>arrays := (arrays s)(a := arrays s (ChildrenOf w)),
               nextArray := Suc (nextArray s)\<rparr>))"

text \<open>
  The loop of \<open>dispose\<close> over the children: entry \<open>i\<close> of the array is set to null, the
  child's \<open>_parent\<close> is set to null and the child is disposed. The elements visited are
  those the array held when the loop started.
\<close>

primrec dispose_children ::
  "(wid \<Rightarrow> state \<Rightarrow> state result) \<Rightarrow> wid \<Rightarrow> nat \<Rightarrow> wid option list \<Rightarrow> state \<Rightarrow> state result" where
  "dispose_children disp w i [] s = Ok s"
| "dispose_children disp w i (c # cs) s =
     (let s1 = updA (ChildrenOf w) (\<lambda>a. a[i := None]) s in
      case c of
        None \<Rightarrow> Throw TypeError s1
      | Some ch \<Rightarrow>
          seq (disp ch (updW ch (\<lambda>r. r\<lparr>w_parent := None\<rparr>) s1))
              (dispose_children disp w (Suc i) cs))"

primrec dispose :: "sender \<Rightarrow> nat \<Rightarrow> wid \<Rightarrow> state \<Rightarrow> state result" where
  "dispose send 0 w s = OutOfFuel"
| "dispose send (Suc n) w s =
     (let s1 = disposed_emit w (setFlag w IsDisposed (clearMessageData w s));
          s2 = (case w_layout (widgets s1 w) of
                  None \<Rightarrow> s1
                | Some l \<Rightarrow> layout_dispose l (updW w (\<lambda>r. r\<lparr>w_layout := None\<rparr>) s1))
      in seq (case w_parent (widgets s2 w) of
                Some p \<Rightarrow>
                  send p (ChildMessage ''child-removed'' w)
                    (algo_remove (ChildrenOf p) w (updW w (\<lambda>r. r\<lparr>w_parent := None\<rparr>) s2))
              | None \<Rightarrow> if isAttached s2 w then detach send w s2 else Ok s2)
          (\<lambda>s3.
         seq (dispose_children (dispose send n) w 0 (arrays s3 (ChildrenOf w)) s3)
          (\<lambda>s4. Ok (updW w (\<lambda>r. r\<lparr>w_node := None\<rparr>) (updA (ChildrenOf w) (\<lambda>a. []) s4)))))"

section \<open>Construction\<close>

text \<open>
  The constructor creates the node and adds the class \<open>p-Widget\<close>; the field
  initialisers give the other fields. In \<open>initial css\<close> every widget and every layout
  is newly constructed and nothing has been sent; \<open>css\<close> gives the box metrics that
  \<open>createBoxSizing\<close> computes for an element.
\<close>

definition new_Widget :: "wid \<Rightarrow> Widget" where
  "new_Widget w =
     \<lparr>w_node = Some (WidgetNode w), w_layout = None, w_parent = None, w_boxSizing = None,
      w_x = Finite 0, w_y = Finite 0, w_width = Finite 0, w_height = Finite 0, w_flags = {}\<rparr>"

definition new_element :: "(elem \<Rightarrow> IBoxSizing) \<Rightarrow> elem \<Rightarrow> HTMLElement" where
  "new_element css e =
     \<lparr>classList = (case e of HostElement k \<Rightarrow> [] | WidgetNode w \<Rightarrow> [WIDGET_CLASS]),
      parentNode = None, style_left = None, style_top = None, style_width = None,
      style_height = None, computedBox = css e\<rparr>"

definition initial :: "(elem \<Rightarrow> IBoxSizing) \<Rightarrow> state" where
  "initial css =
     \<lparr>widgets = new_Widget, arrays = (\<lambda>a. []), nextArray = 0, elems = new_element css,
      layouts = (\<lambda>l. \<lparr>l_parent = None, l_disposed = False, l_invalidated = 0\<rparr>),
      delivered = [], pending = (\<lambda>h. []), filters = (\<lambda>h. []), emitted = []\<rparr>"

section \<open>Trees of widgets\<close>

text \<open>
  The shape of the part of the heap below a widget: \<open>is_tree s t\<close> holds when the
  children array of every node of \<open>t\<close> lists the roots of its subtrees, in order.
  \<open>nodes t\<close> lists the widgets of \<open>t\<close> parent first, children from first to last.
\<close>

datatype tree = Node wid "tree list"

fun root :: "tree \<Rightarrow> wid" where
  "root (Node w ts) = w"

fun nodes :: "tree \<Rightarrow> wid list" where
  "nodes (Node w ts) = w # concat (map nodes ts)"

fun depth :: "tree \<Rightarrow> nat" where
  "depth (Node w ts) = Suc (foldr max (map depth ts) 0)"

fun is_tree :: "state \<Rightarrow> tree \<Rightarrow> bool" where
  "is_tree s (Node w ts) =
     (arrays s (ChildrenOf w) = map (\<lambda>t. Some (root t)) ts \<and> (\<forall>t \<in> set ts. is_tree s t))"

text \<open>
  The eight messages that \<open>processMessage\<close> passes on to the children; the four of
  the attach and detach family go to every child, the four of the show and hide family
  to the children that are not hidden.
\<close>

definition to_all :: "msg \<Rightarrow> bool" where
  "to_all m = (mtype m \<in> {''before-attach'', ''after-attach'', ''before-detach'', ''after-detach''})"

definition to_non_hidden :: "msg \<Rightarrow> bool" where
  "to_non_hidden m = (mtype m \<in> {''before-show'', ''after-show'', ''before-hide'', ''after-hide''})"

text \<open>What \<open>processMessage\<close> writes to the widget itself for such a message.\<close>

definition own_effect :: "msg \<Rightarrow> wid \<Rightarrow> state \<Rightarrow> state" where
  "own_effect m w s =
     (let t = mtype m in
      if t = ''after-show'' then setFlag w IsVisible s
      else if t = ''after-hide'' then clearFlag w IsVisible s
      else if t = ''before-attach'' then updW w (\<lambda>r. r\<lparr>w_boxSizing := None\<rparr>) s
      else if t = ''after-attach'' then
        setFlag w IsAttached
          (if \<not> isHidden s w \<and> (case w_parent (widgets s w) of None \<Rightarrow> True | Some p \<Rightarrow> isVisible s p)
           then setFlag w IsVisible s else s)
      else if t = ''after-detach'' then clearFlag w IsAttached (clearFlag w IsVisible s)
      else s)"

text \<open>
  The effect of delivering such a message to the root of a tree: the delivery is
  recorded, the widget is written, then the children are visited in order.
\<close>

fun fan :: "msg \<Rightarrow> tree \<Rightarrow> state \<Rightarrow> state" where
  "fan m (Node w ts) s =
     fold (\<lambda>t s'. if to_all m \<or> \<not> isHidden s' (root t) then fan m t s' else s') ts
       (own_effect m w (s\<lparr>delivered := delivered s @ [(w, m)]\<rparr>))"

section \<open>Paths of geometry requests\<close>

text \<open>
  \<open>bubble_path s w force ps\<close>: a call \<open>updateGeometry(force)\<close> on \<open>w\<close> passes the
  successive ancestors \<open>ps\<close> of \<open>w\<close>, none of which has a layout, and stops at the last
  of them (at \<open>w\<close> itself when \<open>ps\<close> is empty): a widget that has no parent, or is
  hidden and not forced, or whose parent has a layout. \<open>absorb\<close> is what the call on
  that last widget does.
\<close>

fun bubble_path :: "state \<Rightarrow> wid \<Rightarrow> bool \<Rightarrow> wid list \<Rightarrow> bool" where
  "bubble_path s w force [] =
     (case w_parent (widgets s w) of
        None \<Rightarrow> True
      | Some p \<Rightarrow> (isHidden s w \<and> \<not> force) \<or> w_layout (widgets s p) \<noteq> None)"
| "bubble_path s w force (p # ps) =
     (w_parent (widgets s w) = Some p \<and> \<not> (isHidden s w \<and> \<not> force) \<and>
      w_layout (widgets s p) = None \<and> bubble_path s p False ps)"

definition absorb :: "wid \<Rightarrow> bool \<Rightarrow> state \<Rightarrow> state" where
  "absorb q force s =
     (case w_parent (widgets s q) of
        None \<Rightarrow> s
      | Some p \<Rightarrow>
          if isHidden s q \<and> \<not> force then s
          else (case w_layout (widgets s p) of None \<Rightarrow> s | Some l \<Rightarrow> layout_invalidate l s))"

text \<open>
  The state after a tree was taken out of, or put into, an attached parent: the two
  messages of the family delivered to the tree, with the DOM operation on the node
  \<open>na\<close> of its root between them.
\<close>

definition detached :: "tree \<Rightarrow> elem \<Rightarrow> state \<Rightarrow> state" where
  "detached t na s =
     fan (Message ''after-detach'') t
       (updE na (\<lambda>e. e\<lparr>parentNode := None\<rparr>) (fan (Message ''before-detach'') t s))"

definition attached :: "tree \<Rightarrow> elem \<Rightarrow> elem \<Rightarrow> state \<Rightarrow> state" where
  "attached t na host s =
     fan (Message ''after-attach'') t
       (updE na (\<lambda>e. e\<lparr>parentNode := Some host\<rparr>) (fan (Message ''before-attach'') t s))"

section \<open>Example states\<close>

text \<open>
  Box metrics without limits other than a minimum of zero, and the states used to
  instantiate the theorems below.
\<close>

definition css0 :: "elem \<Rightarrow> IBoxSizing" where
  "css0 e = \<lparr>minWidth = Finite 0, maxWidth = Infinity, minHeight = Finite 0, maxHeight = Infinity\<rparr>"

text \<open>Widget 0 with layout 0 installed.\<close>

definition ex_installed :: state where
  "ex_installed =
     (layout_set_parent 0 0 (installMessageFilter 0 0
        (updW 0 (\<lambda>r. r\<lparr>w_layout := Some 0\<rparr>) (initial css0))))
     \<lparr>delivered := [(0, Message ''layout-changed'')]\<rparr>"

text \<open>Widget 0 with the children 1 and 2, added in this order; nothing is attached.\<close>

definition ex_family :: state where
  "ex_family =
     (initial css0)
     \<lparr>widgets := (widgets (initial css0))
         (1 := (new_Widget 1)\<lparr>w_parent := Some 0\<rparr>, 2 := (new_Widget 2)\<lparr>w_parent := Some 0\<rparr>),
      arrays := (arrays (initial css0))(ChildrenOf 0 := [Some 1, Some 2]),
      elems := (elems (initial css0))
         (WidgetNode 1 := (new_element css0 (WidgetNode 1))\<lparr>parentNode := Some (WidgetNode 0)\<rparr>,
          WidgetNode 2 := (new_element css0 (WidgetNode 2))\<lparr>parentNode := Some (WidgetNode 0)\<rparr>),
      delivered := [(0, ChildMessage ''child-added'' 1), (1, Message ''parent-changed''),
                    (0, ChildMessage ''child-added'' 2), (2, Message ''parent-changed'')]\<rparr>"

text \<open>The number of \<open>layout-request\<close> messages in a queue.\<close>

definition layout_requests :: "msg list \<Rightarrow> nat" where
  "layout_requests ms = length (filter (\<lambda>m. mtype m = ''layout-request'') ms)"

text \<open>The chain 0, 1, 2 of parent and child, widget 1 hidden before it was given its parent.\<close>

definition ex_hidden_chain :: state where
  "ex_hidden_chain =
     (initial css0)
     \<lparr>widgets := (widgets (initial css0))
         (1 := (new_Widget 1)\<lparr>w_parent := Some 0, w_flags := {IsHidden}\<rparr>,
          2 := (new_Widget 2)\<lparr>w_parent := Some 1\<rparr>),
      arrays := (arrays (initial css0))(ChildrenOf 0 := [Some 1], ChildrenOf 1 := [Some 2]),
      elems := (elems (initial css0))
         (WidgetNode 1 := (new_element css0 (WidgetNode 1))
             \<lparr>classList := [WIDGET_CLASS, HIDDEN_CLASS], parentNode := Some (WidgetNode 0)\<rparr>,
          WidgetNode 2 := (new_element css0 (WidgetNode 2))\<lparr>parentNode := Some (WidgetNode 1)\<rparr>),
      delivered := [(0, ChildMessage ''child-added'' 1), (1, Message ''parent-changed''),
                    (1, ChildMessage ''child-added'' 2), (2, Message ''parent-changed'')]\<rparr>"

text \<open>The family of widget 0, with layout 0 installed on widget 0.\<close>

definition ex_laid_out :: state where
  "ex_laid_out =
     layout_set_parent 0 0 (installMessageFilter 0 0
        (updW 0 (\<lambda>r. r\<lparr>w_layout := Some 0\<rparr>) ex_family))"

text \<open>Widget 0, a root, hidden and never attached.\<close>

definition ex_hidden_root :: state where
  "ex_hidden_root =
     updE (WidgetNode 0) (\<lambda>e. e\<lparr>classList := [WIDGET_CLASS, HIDDEN_CLASS]\<rparr>)
       (setFlag 0 IsHidden (initial css0))"

text \<open>The family of widget 0 after \<open>attach\<close> of widget 0 to a host.\<close>

definition ex_attached_family :: state where
  "ex_attached_family =
     attached (Node 0 [Node 1 [], Node 2 []]) (WidgetNode 0) (HostElement 0) ex_family"

section \<open>Disposal: the state a disposed widget is left in\<close>

text \<open>
  What \<open>dispose\<close> leaves of one widget: the \<open>IsDisposed\<close> flag set, \<open>_node\<close> and
  \<open>_layout\<close> null, \<open>_children\<close> empty and \<open>_parent\<close> null.
\<close>

definition disposed_node :: "state \<Rightarrow> wid \<Rightarrow> bool" where
  "disposed_node s v =
     (isDisposed s v \<and> w_node (widgets s v) = None \<and> w_layout (widgets s v) = None \<and>
      arrays s (ChildrenOf v) = [] \<and> w_parent (widgets s v) = None)"

text \<open>
  The disposal of the widgets \<open>vs\<close> between two states: \<open>disposed.emit\<close> ran for exactly
  these widgets, in this order; each of them is left disposed; every other widget and its
  \<open>_children\<close> array are untouched.
\<close>

definition disposal :: "wid list \<Rightarrow> state \<Rightarrow> state \<Rightarrow> bool" where
  "disposal vs s s' =
     (emitted s' = emitted s @ vs \<and> (\<forall>v \<in> set vs. disposed_node s' v) \<and>
      (\<forall>v. v \<notin> set vs \<longrightarrow>
         widgets s' v = widgets s v \<and> arrays s' (ChildrenOf v) = arrays s (ChildrenOf v)))"

text \<open>The widgets \<open>vs\<close> still hold their DOM node: none of them has been disposed of.\<close>

definition live :: "state \<Rightarrow> wid list \<Rightarrow> bool" where
  "live s vs = (\<forall>v \<in> set vs. w_node (widgets s v) \<noteq> None)"

section \<open>Basic facts\<close>

lemma updW_fields [simp]:
  "widgets (updW w f s) = (widgets s)(w := f (widgets s w))"
  "arrays (updW w f s) = arrays s"
  "nextArray (updW w f s) = nextArray s"
  "elems (updW w f s) = elems s"
  "layouts (updW w f s) = layouts s"
  "delivered (updW w f s) = delivered s"
  "pending (updW w f s) = pending s"
  "filters (updW w f s) = filters s"
  "emitted (updW w f s) = emitted s"
  by (simp_all add: updW_def)

lemma updE_fields [simp]:
  "widgets (updE e f s) = widgets s"
  "arrays (updE e f s) = arrays s"
  "nextArray (updE e f s) = nextArray s"
  "elems (updE e f s) = (elems s)(e := f (elems s e))"
  "layouts (updE e f s) = layouts s"
  "delivered (updE e f s) = delivered s"
  "pending (updE e f s) = pending s"
  "filters (updE e f s) = filters s"
  "emitted (updE e f s) = emitted s"
  by (simp_all add: updE_def)

lemma updL_fields [simp]:
  "widgets (updL l f s) = widgets s"
  "arrays (updL l f s) = arrays s"
  "nextArray (updL l f s) = nextArray s"
  "elems (updL l f s) = elems s"
  "layouts (updL l f s) = (layouts s)(l := f (layouts s l))"
  "delivered (updL l f s) = delivered s"
  "pending (updL l f s) = pending s"
  "filters (updL l f s) = filters s"
  "emitted (updL l f s) = emitted s"
  by (simp_all add: updL_def)

lemma updA_fields [simp]:
  "widgets (updA a f s) = widgets s"
  "arrays (updA a f s) = (arrays s)(a := f (arrays s a))"
  "nextArray (updA a f s) = nextArray s"
  "elems (updA a f s) = elems s"
  "layouts (updA a f s) = layouts s"
  "delivered (updA a f s) = delivered s"
  "pending (updA a f s) = pending s"
  "filters (updA a f s) = filters s"
  "emitted (updA a f s) = emitted s"
  by (simp_all add: updA_def)

lemma seq_simps [simp]:
  "seq OutOfFuel f = OutOfFuel"
  "seq (Throw e s) f = Throw e s"
  "seq (Ok s) f = f s"
  by (simp_all add: seq_def)

lemma processMessage_ignored:
  "mtype m \<notin> {''move'', ''resize'', ''child-added'', ''child-removed'', ''before-show'',
      ''after-show'', ''before-hide'', ''after-hide'', ''before-attach'', ''after-attach'',
      ''before-detach'', ''after-detach'', ''close''} \<Longrightarrow>
   processMessage send h m s = Ok s"
  by (simp add: processMessage_def)

lemma sendMessage_ignored:
  "mtype m \<notin> {''move'', ''resize'', ''child-added'', ''child-removed'', ''before-show'',
      ''after-show'', ''before-hide'', ''after-hide'', ''before-attach'', ''after-attach'',
      ''before-detach'', ''after-detach'', ''close''} \<Longrightarrow>
   sendMessage (Suc n) h m s = Ok (s\<lparr>delivered := delivered s @ [(h, m)]\<rparr>)"
  by (simp add: processMessage_def)

lemma sendMessage_move:
  "sendMessage (Suc n) h (MoveMessage a b c d) s = Ok (s\<lparr>delivered := delivered s @ [(h, MoveMessage a b c d)]\<rparr>)"
  "sendMessage (Suc n) h (ResizeMessage a b c d) s = Ok (s\<lparr>delivered := delivered s @ [(h, ResizeMessage a b c d)]\<rparr>)"
  by (simp_all add: processMessage_def)

lemma flag_fields [simp]:
  "arrays (setFlag w f s) = arrays s" "arrays (clearFlag w f s) = arrays s"
  "elems (setFlag w f s) = elems s" "elems (clearFlag w f s) = elems s"
  "layouts (setFlag w f s) = layouts s" "layouts (clearFlag w f s) = layouts s"
  "delivered (setFlag w f s) = delivered s" "delivered (clearFlag w f s) = delivered s"
  "pending (setFlag w f s) = pending s" "pending (clearFlag w f s) = pending s"
  "filters (setFlag w f s) = filters s" "filters (clearFlag w f s) = filters s"
  "emitted (setFlag w f s) = emitted s" "emitted (clearFlag w f s) = emitted s"
  "nextArray (setFlag w f s) = nextArray s" "nextArray (clearFlag w f s) = nextArray s"
  by (simp_all add: setFlag_def clearFlag_def)

lemma flag_widgets [simp]:
  "widgets (setFlag w f s) = (widgets s)(w := (widgets s w)\<lparr>w_flags := insert f (w_flags (widgets s w))\<rparr>)"
  "widgets (clearFlag w f s) = (widgets s)(w := (widgets s w)\<lparr>w_flags := w_flags (widgets s w) - {f}\<rparr>)"
  by (simp_all add: setFlag_def clearFlag_def)

lemma own_effect_fields [simp]:
  "arrays (own_effect m w s) = arrays s"
  "elems (own_effect m w s) = elems s"
  "layouts (own_effect m w s) = layouts s"
  "delivered (own_effect m w s) = delivered s"
  "pending (own_effect m w s) = pending s"
  "filters (own_effect m w s) = filters s"
  "emitted (own_effect m w s) = emitted s"
  "nextArray (own_effect m w s) = nextArray s"
  by (simp_all add: own_effect_def Let_def)

lemma processMessage_to_all:
  "to_all m \<Longrightarrow> processMessage send w m s =
     sendAll send (arrays s (ChildrenOf w)) m (own_effect m w s)"
  by (auto simp add: to_all_def processMessage_def own_effect_def Let_def)

lemma processMessage_to_non_hidden:
  "to_non_hidden m \<Longrightarrow> processMessage send w m s =
     sendNonHidden send (arrays s (ChildrenOf w)) m (own_effect m w s)"
  by (auto simp add: to_non_hidden_def processMessage_def own_effect_def Let_def)

lemma arrays_fan [simp]: "arrays (fan m t s) = arrays s"
proof (induction t arbitrary: s)
  case (Node w ts)
  have "\<And>s. set us \<subseteq> set ts \<Longrightarrow>
     arrays (fold (\<lambda>t s'. if to_all m \<or> \<not> isHidden s' (root t) then fan m t s' else s') us s) = arrays s" for us
    by (induction us) (auto simp add: Node.IH)
  then show ?case by simp
qed

lemma is_tree_arrays: "arrays s' = arrays s \<Longrightarrow> is_tree s' t = is_tree s t"
  by (induction t) auto

lemma height_child: "t \<in> set ts \<Longrightarrow> depth t \<le> foldr max (map depth ts) 0"
  by (induction ts) auto

lemma sendAll_fan:
  assumes "\<And>t s. t \<in> set ts \<Longrightarrow> is_tree s t \<Longrightarrow> send (root t) m s = Ok (fan m t s)"
    and "\<forall>t \<in> set ts. is_tree s t" and "to_all m"
  shows "sendAll send (map (\<lambda>t. Some (root t)) ts) m s =
     Ok (fold (\<lambda>t s'. if to_all m \<or> \<not> isHidden s' (root t) then fan m t s' else s') ts s)"
  using assms
proof (induction ts arbitrary: s)
  case Nil then show ?case by simp
next
  case (Cons t ts)
  have "\<forall>u \<in> set ts. is_tree (fan m t s) u"
    using Cons.prems(2) by (simp add: is_tree_arrays [of "fan m t s" s])
  then show ?case using Cons by simp
qed

lemma sendNonHidden_fan:
  assumes "\<And>t s. t \<in> set ts \<Longrightarrow> is_tree s t \<Longrightarrow> send (root t) m s = Ok (fan m t s)"
    and "\<forall>t \<in> set ts. is_tree s t" and "\<not> to_all m"
  shows "sendNonHidden send (map (\<lambda>t. Some (root t)) ts) m s =
     Ok (fold (\<lambda>t s'. if to_all m \<or> \<not> isHidden s' (root t) then fan m t s' else s') ts s)"
  using assms
proof (induction ts arbitrary: s)
  case Nil then show ?case by simp
next
  case (Cons t ts)
  have "\<forall>u \<in> set ts. is_tree (fan m t s) u"
    using Cons.prems(2) by (simp add: is_tree_arrays [of "fan m t s" s])
  then show ?case using Cons by simp
qed

lemma to_all_not_non_hidden: "to_non_hidden m \<Longrightarrow> \<not> to_all m"
  by (auto simp add: to_all_def to_non_hidden_def)

lemma sendMessage_fan:
  "is_tree s t \<Longrightarrow> to_all m \<or> to_non_hidden m \<Longrightarrow> depth t \<le> n \<Longrightarrow>
   sendMessage n (root t) m s = Ok (fan m t s)"
proof (induction t arbitrary: s n)
  case (Node w ts)
  from Node.prems(3) obtain k where n: "n = Suc k" and k: "foldr max (map depth ts) 0 \<le> k"
    by (cases n) auto
  let ?s0 = "s\<lparr>delivered := delivered s @ [(w, m)]\<rparr>"
  let ?s1 = "own_effect m w ?s0"
  have kids: "arrays ?s0 (ChildrenOf w) = map (\<lambda>t. Some (root t)) ts"
    using Node.prems(1) by simp
  have trees: "\<forall>t \<in> set ts. is_tree ?s1 t"
    using Node.prems(1) by (simp add: is_tree_arrays [of ?s1 s])
  have IH: "\<And>t s. t \<in> set ts \<Longrightarrow> is_tree s t \<Longrightarrow> sendMessage k (root t) m s = Ok (fan m t s)"
    using Node.IH Node.prems(2) k height_child by (meson le_trans)
  show ?case
  proof (cases "to_all m")
    case True
    then show ?thesis
      using sendAll_fan [where send = "sendMessage k" and ts = ts and m = m, OF IH trees True] kids
      by (simp add: n processMessage_to_all)
  next
    case False
    then have nh: "to_non_hidden m" using Node.prems(2) by simp
    show ?thesis
      using sendNonHidden_fan [where send = "sendMessage k" and ts = ts and m = m, OF IH trees False] kids
      by (simp add: n processMessage_to_non_hidden [OF nh])
  qed
qed

lemma tests_delivered [simp]:
  "testFlag (s\<lparr>delivered := d\<rparr>) = testFlag s"
  "isHidden (s\<lparr>delivered := d\<rparr>) = isHidden s"
  "isDisposed (s\<lparr>delivered := d\<rparr>) = isDisposed s"
  "isAttached (s\<lparr>delivered := d\<rparr>) = isAttached s"
  "isVisible (s\<lparr>delivered := d\<rparr>) = isVisible s"
  by (simp_all add: fun_eq_iff isHidden_def isDisposed_def isAttached_def isVisible_def testFlag_def)

lemma own_effect_widget:
  "w_parent (widgets (own_effect m w s) v) = w_parent (widgets s v)"
  "w_layout (widgets (own_effect m w s) v) = w_layout (widgets s v)"
  "w_node (widgets (own_effect m w s) v) = w_node (widgets s v)"
  "isHidden (own_effect m w s) v = isHidden s v"
  "isDisposed (own_effect m w s) v = isDisposed s v"
  "v \<noteq> w \<Longrightarrow> widgets (own_effect m w s) v = widgets s v"
  by (simp_all add: own_effect_def Let_def isHidden_def isDisposed_def testFlag_def)

lemma fold_fan_induct:
  assumes "\<And>t s. t \<in> set ts \<Longrightarrow> P s \<Longrightarrow> P (fan m t s)" and "P s"
  shows "P (fold (\<lambda>t s'. if to_all m \<or> \<not> isHidden s' (root t) then fan m t s' else s') ts s)"
  using assms by (induction ts arbitrary: s) auto

lemma fan_fields:
  "elems (fan m t s) = elems s \<and> layouts (fan m t s) = layouts s \<and>
   pending (fan m t s) = pending s \<and> filters (fan m t s) = filters s \<and>
   emitted (fan m t s) = emitted s \<and> nextArray (fan m t s) = nextArray s"
proof (induction t arbitrary: s)
  case (Node w ts)
  let ?s1 = "own_effect m w (s\<lparr>delivered := delivered s @ [(w, m)]\<rparr>)"
  let ?P = "\<lambda>s'. elems s' = elems s \<and> layouts s' = layouts s \<and>
   pending s' = pending s \<and> filters s' = filters s \<and>
   emitted s' = emitted s \<and> nextArray s' = nextArray s"
  have "?P (fold (\<lambda>t s'. if to_all m \<or> \<not> isHidden s' (root t) then fan m t s' else s') ts ?s1)"
    by (rule fold_fan_induct [where P = ?P]) (simp_all add: Node.IH)
  then show ?case by simp
qed

lemma fan_widget:
  "w_parent (widgets (fan m t s) v) = w_parent (widgets s v) \<and>
   w_layout (widgets (fan m t s) v) = w_layout (widgets s v) \<and>
   w_node (widgets (fan m t s) v) = w_node (widgets s v) \<and>
   isHidden (fan m t s) v = isHidden s v \<and>
   isDisposed (fan m t s) v = isDisposed s v"
proof (induction t arbitrary: s)
  case (Node w ts)
  let ?s1 = "own_effect m w (s\<lparr>delivered := delivered s @ [(w, m)]\<rparr>)"
  let ?P = "\<lambda>s'. w_parent (widgets s' v) = w_parent (widgets s v) \<and>
   w_layout (widgets s' v) = w_layout (widgets s v) \<and>
   w_node (widgets s' v) = w_node (widgets s v) \<and>
   isHidden s' v = isHidden s v \<and> isDisposed s' v = isDisposed s v"
  have "?P (fold (\<lambda>t s'. if to_all m \<or> \<not> isHidden s' (root t) then fan m t s' else s') ts ?s1)"
    by (rule fold_fan_induct [where P = ?P]) (simp_all add: Node.IH own_effect_widget)
  then show ?case by simp
qed

lemma fan_frame: "v \<notin> set (nodes t) \<Longrightarrow> widgets (fan m t s) v = widgets s v"
proof (induction t arbitrary: s)
  case (Node w ts)
  let ?s1 = "own_effect m w (s\<lparr>delivered := delivered s @ [(w, m)]\<rparr>)"
  have "widgets (fold (\<lambda>t s'. if to_all m \<or> \<not> isHidden s' (root t) then fan m t s' else s') ts ?s1) v
      = widgets s v"
    by (rule fold_fan_induct [where P = "\<lambda>s'. widgets s' v = widgets s v"])
       (use Node in \<open>auto simp add: own_effect_widget\<close>)
  then show ?case by simp
qed

lemma fan_delivered_all:
  "to_all m \<Longrightarrow> delivered (fan m t s) = delivered s @ map (\<lambda>v. (v, m)) (nodes t)"
proof (induction t arbitrary: s)
  case (Node w ts)
  have "set us \<subseteq> set ts \<Longrightarrow>
     delivered (fold (\<lambda>t s'. if to_all m \<or> \<not> isHidden s' (root t) then fan m t s' else s') us s)
       = delivered s @ map (\<lambda>v. (v, m)) (concat (map nodes us))" for us s
    by (induction us arbitrary: s) (auto simp add: Node)
  then show ?case by simp
qed

lemma depth_pos: "0 < depth t"
  by (cases t) simp

lemma lifecycle_messages [simp]:
  "to_all (Message ''before-attach'')" "to_all (Message ''after-attach'')"
  "to_all (Message ''before-detach'')" "to_all (Message ''after-detach'')"
  "to_non_hidden (Message ''before-show'')" "to_non_hidden (Message ''after-show'')"
  "to_non_hidden (Message ''before-hide'')" "to_non_hidden (Message ''after-hide'')"
  by (simp_all add: to_all_def to_non_hidden_def)

lemma sendMessage_child_note:
  "0 < n \<Longrightarrow> t = ''child-hidden'' \<or> t = ''child-shown'' \<Longrightarrow>
   sendMessage n p (ChildMessage t w) s = Ok (s\<lparr>delivered := delivered s @ [(p, ChildMessage t w)]\<rparr>)"
  by (cases n) (auto simp add: processMessage_ignored)

lemma fan_project:
  assumes "\<And>w s. f (widgets (own_effect m w s) v) = f (widgets s v)"
  shows "f (widgets (fan m t s) v) = f (widgets s v)"
proof (induction t arbitrary: s)
  case (Node w ts)
  let ?s1 = "own_effect m w (s\<lparr>delivered := delivered s @ [(w, m)]\<rparr>)"
  have "f (widgets (fold (\<lambda>t s'. if to_all m \<or> \<not> isHidden s' (root t) then fan m t s' else s') ts ?s1) v)
      = f (widgets s v)"
    by (rule fold_fan_induct [where P = "\<lambda>s'. f (widgets s' v) = f (widgets s v)"])
       (simp_all add: Node.IH assms)
  then show ?case by simp
qed

lemma fan_keeps:
  assumes "\<And>w s. Q (widgets s v) \<Longrightarrow> Q (widgets (own_effect m w s) v)" and "Q (widgets s v)"
  shows "Q (widgets (fan m t s) v)"
  using assms(2)
proof (induction t arbitrary: s)
  case (Node w ts)
  let ?s1 = "own_effect m w (s\<lparr>delivered := delivered s @ [(w, m)]\<rparr>)"
  have "Q (widgets ?s1 v)"
    using assms(1) [of "s\<lparr>delivered := delivered s @ [(w, m)]\<rparr>" w] Node.prems by simp
  then have "Q (widgets (fold (\<lambda>t s'. if to_all m \<or> \<not> isHidden s' (root t) then fan m t s' else s') ts ?s1) v)"
    by (intro fold_fan_induct [where P = "\<lambda>s'. Q (widgets s' v)"]) (simp_all add: Node.IH)
  then show ?case by simp
qed

lemma fan_reaches:
  assumes "to_all m"
    and "\<And>w s. Q (widgets (own_effect m w s) w)"
    and "\<And>w s v. Q (widgets s v) \<Longrightarrow> Q (widgets (own_effect m w s) v)"
    and "v \<in> set (nodes t)"
  shows "Q (widgets (fan m t s) v)"
  using assms(4)
proof (induction t arbitrary: s)
  case (Node w ts)
  let ?s1 = "own_effect m w (s\<lparr>delivered := delivered s @ [(w, m)]\<rparr>)"
  let ?F = "\<lambda>t s'. if to_all m \<or> \<not> isHidden s' (root t) then fan m t s' else s'"
  have keep: "Q (widgets s' v) \<Longrightarrow> Q (widgets (fan m u s') v)" for s' u
    using fan_keeps [where Q = Q and m = m and v = v] assms(3) by blast
  have keeps: "Q (widgets s' v) \<Longrightarrow> Q (widgets (fold ?F us s') v)" for s' us
    by (rule fold_fan_induct [where P = "\<lambda>s'. Q (widgets s' v)"]) (simp_all add: keep)
  show ?case
  proof (cases "v = w")
    case True
    then have "Q (widgets ?s1 v)" using assms(2) by simp
    then show ?thesis using keeps by simp
  next
    case False
    then obtain u where u: "u \<in> set ts" "v \<in> set (nodes u)"
      using Node.prems by auto
    have "set us \<subseteq> set ts \<Longrightarrow> u \<in> set us \<Longrightarrow> Q (widgets (fold ?F us s') v)" for us s'
    proof (induction us arbitrary: s')
      case Nil then show ?case by simp
    next
      case (Cons a us)
      show ?case
      proof (cases "a = u")
        case True
        have "Q (widgets (fan m u s') v)" using Node.IH u by simp
        then show ?thesis using True assms(1) keeps by simp
      next
        case False
        then show ?thesis using Cons assms(1) by simp
      qed
    qed
    then show ?thesis using u by simp
  qed
qed

lemma fan_root:
  "distinct (nodes t) \<Longrightarrow>
   widgets (fan m t s) (root t) =
     widgets (own_effect m (root t) (s\<lparr>delivered := delivered s @ [(root t, m)]\<rparr>)) (root t)"
proof (cases t)
  case (Node w ts)
  assume "distinct (nodes t)"
  then have out: "u \<in> set ts \<Longrightarrow> w \<notin> set (nodes u)" for u
    using Node by auto
  let ?s1 = "own_effect m w (s\<lparr>delivered := delivered s @ [(w, m)]\<rparr>)"
  have "widgets (fold (\<lambda>t s'. if to_all m \<or> \<not> isHidden s' (root t) then fan m t s' else s') ts ?s1) w
      = widgets ?s1 w"
    by (rule fold_fan_induct [where P = "\<lambda>s'. widgets s' w = widgets ?s1 w"])
       (simp_all add: fan_frame out)
  then show ?thesis using Node by simp
qed

section \<open>Geometry\<close>

lemma processMessage_geometry [simp]:
  "processMessage send h (MoveMessage a b c d) s = Ok s"
  "processMessage send h (ResizeMessage a b c d) s = Ok s"
  by (simp_all add: processMessage_def)

lemma strict_neq_same: "a \<noteq> NaN \<Longrightarrow> \<not> strict_neq a a"
  by (simp add: strict_neq_def)

lemma not_strict_neqD: "\<not> strict_neq a b \<Longrightarrow> a = b"
  by (simp add: strict_neq_def)

lemma strict_neq_assign: "(if strict_neq a b then b else a) = b"
  by (auto simp add: strict_neq_def)

lemma clip_bounds:
  "num_le lo hi \<Longrightarrow> v \<noteq> NaN \<Longrightarrow>
   num_le lo (Math_max lo (Math_min v hi)) \<and> num_le (Math_max lo (Math_min v hi)) hi"
  by (cases lo; cases hi; cases v) (auto simp add: Math_max_def Math_min_def)

lemma setGeometry_result:
  assumes "boxSizing w s = Ok (box, s0)" and "w_node (widgets s w) = Some nd"
  shows "\<exists>s'. setGeometry (sendMessage (Suc n)) w x y width height s = Ok s' \<and>
     delivered s' = delivered s @
       (if strict_neq (w_x (widgets s w)) x \<or> strict_neq (w_y (widgets s w)) y
        then [(w, MoveMessage (w_x (widgets s w)) (w_y (widgets s w)) x y)] else []) @
       (if strict_neq (w_width (widgets s w)) (Math_max (minWidth box) (Math_min width (maxWidth box))) \<or>
           strict_neq (w_height (widgets s w)) (Math_max (minHeight box) (Math_min height (maxHeight box)))
        then [(w, ResizeMessage (w_width (widgets s w)) (w_height (widgets s w))
                (Math_max (minWidth box) (Math_min width (maxWidth box)))
                (Math_max (minHeight box) (Math_min height (maxHeight box))))] else []) \<and>
     w_x (widgets s' w) = x \<and> w_y (widgets s' w) = y \<and>
     w_width (widgets s' w) = Math_max (minWidth box) (Math_min width (maxWidth box)) \<and>
     w_height (widgets s' w) = Math_max (minHeight box) (Math_min height (maxHeight box)) \<and>
     w_node (widgets s' w) = Some nd \<and> boxSizing w s' = Ok (box, s')"
proof -
  have s0: "w_node (widgets s0 w) = Some nd \<and> delivered s0 = delivered s \<and>
      w_x (widgets s0 w) = w_x (widgets s w) \<and> w_y (widgets s0 w) = w_y (widgets s w) \<and>
      w_width (widgets s0 w) = w_width (widgets s w) \<and>
      w_height (widgets s0 w) = w_height (widgets s w) \<and> w_boxSizing (widgets s0 w) = Some box"
    using assms by (auto simp add: boxSizing_def Let_def split: option.splits)
  have "boxSizing w s' = Ok (box, s')"
    if "w_boxSizing (widgets s' w) = Some box" for s'
    using that by (simp add: boxSizing_def)
  then show ?thesis
    using s0 by (auto simp add: setGeometry_def Let_def assms(1) dest: not_strict_neqD)
qed

text \<open>
  Claim C3, as amended. \<open>setGeometry(x, y, width, height)\<close> on a widget whose node is
  not null stores \<open>x\<close>, \<open>y\<close> and the clipped size
  \<open>max(min, min(size, max))\<close>, which lies within the limits of the box metrics when
  the limits are ordered and the size is not \<open>NaN\<close>. It delivers a \<open>move\<close> message
  exactly when the old \<open>x\<close> or \<open>y\<close> \<open>!==\<close> the new one, then a \<open>resize\<close> message
  exactly when the old width or height \<open>!==\<close> the clipped one, each carrying the old
  and the new values. When none of \<open>x\<close>, \<open>y\<close> and the clipped sizes is \<open>NaN\<close>, the
  same call made again delivers nothing.
\<close>

theorem setGeometry_messages:
  assumes "boxSizing w s = Ok (box, s0)" and "w_node (widgets s w) = Some nd"
    and "cw = Math_max (minWidth box) (Math_min width (maxWidth box))"
    and "ch = Math_max (minHeight box) (Math_min height (maxHeight box))"
  shows "\<exists>s'. setGeometry (sendMessage (Suc n)) w x y width height s = Ok s' \<and>
     w_x (widgets s' w) = x \<and> w_y (widgets s' w) = y \<and>
     w_width (widgets s' w) = cw \<and> w_height (widgets s' w) = ch \<and>
     (num_le (minWidth box) (maxWidth box) \<and> width \<noteq> NaN \<longrightarrow>
        num_le (minWidth box) cw \<and> num_le cw (maxWidth box)) \<and>
     (num_le (minHeight box) (maxHeight box) \<and> height \<noteq> NaN \<longrightarrow>
        num_le (minHeight box) ch \<and> num_le ch (maxHeight box)) \<and>
     delivered s' = delivered s @
       (if strict_neq (w_x (widgets s w)) x \<or> strict_neq (w_y (widgets s w)) y
        then [(w, MoveMessage (w_x (widgets s w)) (w_y (widgets s w)) x y)] else []) @
       (if strict_neq (w_width (widgets s w)) cw \<or> strict_neq (w_height (widgets s w)) ch
        then [(w, ResizeMessage (w_width (widgets s w)) (w_height (widgets s w)) cw ch)]
        else []) \<and>
     (x \<noteq> NaN \<and> y \<noteq> NaN \<and> cw \<noteq> NaN \<and> ch \<noteq> NaN \<longrightarrow>
        (\<exists>s''. setGeometry (sendMessage (Suc n)) w x y width height s' = Ok s'' \<and>
           delivered s'' = delivered s'))"
proof -
  obtain s' where s': "setGeometry (sendMessage (Suc n)) w x y width height s = Ok s'"
     "delivered s' = delivered s @
       (if strict_neq (w_x (widgets s w)) x \<or> strict_neq (w_y (widgets s w)) y
        then [(w, MoveMessage (w_x (widgets s w)) (w_y (widgets s w)) x y)] else []) @
       (if strict_neq (w_width (widgets s w)) cw \<or> strict_neq (w_height (widgets s w)) ch
        then [(w, ResizeMessage (w_width (widgets s w)) (w_height (widgets s w)) cw ch)]
        else [])"
     "w_x (widgets s' w) = x" "w_y (widgets s' w) = y"
     "w_width (widgets s' w) = cw" "w_height (widgets s' w) = ch"
     "w_node (widgets s' w) = Some nd" "boxSizing w s' = Ok (box, s')"
    using setGeometry_result [OF assms(1,2), of n x y width height] assms(3,4) by auto
  have again: "\<exists>s''. setGeometry (sendMessage (Suc n)) w x y width height s' = Ok s'' \<and>
           delivered s'' = delivered s'"
    if "x \<noteq> NaN \<and> y \<noteq> NaN \<and> cw \<noteq> NaN \<and> ch \<noteq> NaN"
    using setGeometry_result [OF s'(8) s'(7), of n x y width height] s'(3-6) assms(3,4) that
    by (auto simp add: strict_neq_same)
  show ?thesis
    using s' again clip_bounds [of "minWidth box" "maxWidth box" width]
      clip_bounds [of "minHeight box" "maxHeight box" height] assms(3,4)
    by auto
qed

theorem setGeometry_messages_witness:
  "boxSizing 0 (initial css0) = Ok (css0 (WidgetNode 0), updW 0 (\<lambda>r. r\<lparr>w_boxSizing := Some (css0 (WidgetNode 0))\<rparr>) (initial css0)) \<and>
   w_node (widgets (initial css0) 0) = Some (WidgetNode 0) \<and>
   (\<exists>s'. setGeometry (sendMessage 1) 0 (Finite 0) (Finite 0) (Finite 30) (Finite (-5)) (initial css0) = Ok s' \<and>
      w_width (widgets s' 0) = Finite 30 \<and> w_height (widgets s' 0) = Finite 0 \<and>
      delivered s' = [(0, ResizeMessage (Finite 0) (Finite 0) (Finite 30) (Finite 0))] \<and>
      (\<exists>s''. setGeometry (sendMessage 1) 0 (Finite 0) (Finite 0) (Finite 30) (Finite (-5)) s' = Ok s'' \<and>
           delivered s'' = delivered s'))"
proof -
  have a: "boxSizing 0 (initial css0) = Ok (css0 (WidgetNode 0), updW 0 (\<lambda>r. r\<lparr>w_boxSizing := Some (css0 (WidgetNode 0))\<rparr>) (initial css0))"
    by (simp add: boxSizing_def initial_def new_Widget_def new_element_def Let_def)
  have b: "w_node (widgets (initial css0) 0) = Some (WidgetNode 0)"
    by (simp add: initial_def new_Widget_def)
  have c: "Finite 30 = Math_max (minWidth (css0 (WidgetNode 0))) (Math_min (Finite 30) (maxWidth (css0 (WidgetNode 0))))"
    by (simp add: css0_def Math_max_def Math_min_def)
  have d: "Finite 0 = Math_max (minHeight (css0 (WidgetNode 0))) (Math_min (Finite (-5)) (maxHeight (css0 (WidgetNode 0))))"
    by (simp add: css0_def Math_max_def Math_min_def)
  have e: "w_x (widgets (initial css0) 0) = Finite 0" "w_y (widgets (initial css0) 0) = Finite 0"
     "w_width (widgets (initial css0) 0) = Finite 0" "w_height (widgets (initial css0) 0) = Finite 0"
     "delivered (initial css0) = []"
    by (simp_all add: initial_def new_Widget_def)
  show ?thesis
    using setGeometry_messages [OF a b c d, of 0 "Finite 0" "Finite 0"] a b
    by (auto simp add: e strict_neq_def)
qed

text \<open>
  Claim C3 as stated fails on \<open>NaN\<close>: \<open>NaN !== NaN\<close>, so the second of two calls with
  the same arguments, \<open>x\<close> being \<open>NaN\<close>, delivers a \<open>move\<close> message again.
\<close>

theorem setGeometry_nan_counterexample:
  "map_result delivered
     (seq (setGeometry (sendMessage 1) 0 NaN (Finite 0) (Finite 0) (Finite 0) (initial css0))
          (setGeometry (sendMessage 1) 0 NaN (Finite 0) (Finite 0) (Finite 0))) =
   Ok [(0, MoveMessage (Finite 0) (Finite 0) NaN (Finite 0)),
       (0, MoveMessage NaN (Finite 0) NaN (Finite 0))]"
  by (simp add: setGeometry_def boxSizing_def initial_def new_Widget_def new_element_def css0_def
      Let_def strict_neq_def Math_max_def Math_min_def)

section \<open>Attachment\<close>

lemma appendChild_node [simp]:
  "appendChild host (Some c) s = Ok (updE c (\<lambda>e. e\<lparr>parentNode := Some host\<rparr>) s)"
  by (simp add: appendChild_def)

lemma attach_root:
  assumes "w_parent (widgets s w) = None" and "is_tree s t" and "root t = w"
    and "distinct (nodes t)" and "w_node (widgets s w) = Some nd" and "depth t \<le> n"
  shows "\<exists>s'. attach (sendMessage n) w host s = Ok s' \<and>
     delivered s' = delivered s @ map (\<lambda>v. (v, Message ''before-attach'')) (nodes t) @
        map (\<lambda>v. (v, Message ''after-attach'')) (nodes t) \<and>
     parentNode (elems s' nd) = Some host \<and>
     (\<forall>v \<in> set (nodes t). w_boxSizing (widgets s' v) = None \<and> isAttached s' v) \<and>
     w_flags (widgets s' w) =
       (if isHidden s w then insert IsAttached (w_flags (widgets s w))
        else insert IsAttached (insert IsVisible (w_flags (widgets s w))))"
proof -
  let ?BA = "Message ''before-attach''" and ?AA = "Message ''after-attach''"
  define s1 where "s1 = fan ?BA t s"
  define s2 where "s2 = updE nd (\<lambda>e. e\<lparr>parentNode := Some host\<rparr>) s1"
  define s3 where "s3 = fan ?AA t s2"
  have a: "sendMessage n w ?BA s = Ok s1"
    using sendMessage_fan [OF assms(2) _ assms(6), of ?BA] assms(3) by (simp add: s1_def)
  have node1: "w_node (widgets s1 w) = Some nd"
    using fan_widget [of ?BA t s w] assms(5) by (simp add: s1_def)
  have arr2: "arrays s2 = arrays s" by (simp add: s2_def s1_def)
  have tree2: "is_tree s2 t" using assms(2) is_tree_arrays [OF arr2] by simp
  have c: "sendMessage n w ?AA s2 = Ok s3"
    using sendMessage_fan [OF tree2 _ assms(6), of ?AA] assms(3) by (simp add: s3_def)
  have run: "attach (sendMessage n) w host s = Ok s3"
    using assms(1) a node1 c by (simp add: attach_def s2_def)
  have log: "delivered s3 = delivered s @ map (\<lambda>v. (v, ?BA)) (nodes t) @ map (\<lambda>v. (v, ?AA)) (nodes t)"
    by (simp add: s3_def s2_def s1_def fan_delivered_all)
  have el: "parentNode (elems s3 nd) = Some host"
    using fan_fields [of ?AA t s2] by (simp add: s3_def s2_def)
  have box1: "w_boxSizing (widgets s1 v) = None" if "v \<in> set (nodes t)" for v
    unfolding s1_def
    by (rule fan_reaches [where Q = "\<lambda>r. w_boxSizing r = None"])
       (use that in \<open>simp_all add: own_effect_def\<close>)
  have box3: "w_boxSizing (widgets s3 v) = w_boxSizing (widgets s1 v)" for v
    using fan_project [where f = w_boxSizing and m = ?AA and v = v and t = t and s = s2]
    by (simp add: s3_def s2_def own_effect_def)
  have att3: "isAttached s3 v" if "v \<in> set (nodes t)" for v
    unfolding s3_def isAttached_def testFlag_def
    by (rule fan_reaches [where Q = "\<lambda>r. IsAttached \<in> w_flags r"])
       (use that in \<open>simp_all add: own_effect_def\<close>)
  have flags1: "widgets s1 w = (widgets s w)\<lparr>w_boxSizing := None\<rparr>"
    using fan_root [OF assms(4), of ?BA s] assms(3) by (simp add: s1_def own_effect_def)
  have flags3: "w_flags (widgets s3 w) =
       (if isHidden s w then insert IsAttached (w_flags (widgets s w))
        else insert IsAttached (insert IsVisible (w_flags (widgets s w))))"
    using fan_root [OF assms(4), of ?AA s2] assms(1,3) flags1
    by (simp add: s3_def s2_def own_effect_def isHidden_def testFlag_def)
  show ?thesis
    using run log el box1 box3 att3 flags3 by simp
qed

lemma after_attach_flags:
  assumes "is_tree s t" and "root t = w" and "distinct (nodes t)" and "depth t \<le> n"
  shows "\<exists>s'. sendMessage n w (Message ''after-attach'') s = Ok s' \<and>
     w_flags (widgets s' w) =
       (if \<not> isHidden s w \<and> (case w_parent (widgets s w) of None \<Rightarrow> True | Some p \<Rightarrow> isVisible s p)
        then insert IsAttached (insert IsVisible (w_flags (widgets s w)))
        else insert IsAttached (w_flags (widgets s w)))"
proof -
  let ?AA = "Message ''after-attach''"
  have "sendMessage n w ?AA s = Ok (fan ?AA t s)"
    using sendMessage_fan [OF assms(1) _ assms(4), of ?AA] assms(2) by simp
  moreover have "w_flags (widgets (fan ?AA t s) w) =
       (if \<not> isHidden s w \<and> (case w_parent (widgets s w) of None \<Rightarrow> True | Some p \<Rightarrow> isVisible s p)
        then insert IsAttached (insert IsVisible (w_flags (widgets s w)))
        else insert IsAttached (w_flags (widgets s w)))"
    using fan_root [OF assms(3), of ?AA s] assms(2)
    by (simp add: own_effect_def isHidden_def isVisible_def testFlag_def split: option.splits)
  ultimately show ?thesis by simp
qed

text \<open>
  Claim C5. \<open>attach(host)\<close> on a widget with a parent throws, in the state of the call.
  On a root whose node is not null and below which the heap is a tree, it delivers
  \<open>before-attach\<close> to every widget of the tree, hidden or not, parent before children,
  which clears the cached box metrics of each; it makes \<open>host\<close> the parent of the
  node; then it delivers \<open>after-attach\<close> to every widget of the tree, after which each
  is attached. The handling of \<open>after-attach\<close> by a widget adds \<open>IsAttached\<close> to its
  flags, and \<open>IsVisible\<close> exactly when the widget is not hidden and has no parent or a
  visible one. A hidden root that was not visible is attached and not visible after the
  call.
\<close>

theorem attach_contract:
  "(w_parent (widgets s w) \<noteq> None \<longrightarrow>
      attach send w host s = Throw (Error ''cannot attach a non-root widget to the DOM'') s) \<and>
   (w_parent (widgets s w) = None \<and> is_tree s t \<and> root t = w \<and> distinct (nodes t) \<and>
      w_node (widgets s w) = Some nd \<and> depth t \<le> n \<longrightarrow>
      (\<exists>s'. attach (sendMessage n) w host s = Ok s' \<and>
         delivered s' = delivered s @ map (\<lambda>v. (v, Message ''before-attach'')) (nodes t) @
            map (\<lambda>v. (v, Message ''after-attach'')) (nodes t) \<and>
         parentNode (elems s' nd) = Some host \<and>
         (\<forall>v \<in> set (nodes t). w_boxSizing (widgets s' v) = None \<and> isAttached s' v) \<and>
         w_flags (widgets s' w) =
           (if isHidden s w then insert IsAttached (w_flags (widgets s w))
            else insert IsAttached (insert IsVisible (w_flags (widgets s w)))) \<and>
         (isHidden s w \<and> \<not> isVisible s w \<longrightarrow> isAttached s' w \<and> \<not> isVisible s' w))) \<and>
   (is_tree s t \<and> root t = w \<and> distinct (nodes t) \<and> depth t \<le> n \<longrightarrow>
      (\<exists>s'. sendMessage n w (Message ''after-attach'') s = Ok s' \<and>
         w_flags (widgets s' w) =
           (if \<not> isHidden s w \<and>
               (case w_parent (widgets s w) of None \<Rightarrow> True | Some p \<Rightarrow> isVisible s p)
            then insert IsAttached (insert IsVisible (w_flags (widgets s w)))
            else insert IsAttached (w_flags (widgets s w)))))"
proof (intro conjI impI)
  assume "w_parent (widgets s w) \<noteq> None"
  then show "attach send w host s = Throw (Error ''cannot attach a non-root widget to the DOM'') s"
    by (simp add: attach_def)
next
  assume h: "w_parent (widgets s w) = None \<and> is_tree s t \<and> root t = w \<and> distinct (nodes t) \<and>
      w_node (widgets s w) = Some nd \<and> depth t \<le> n"
  then obtain s' where s': "attach (sendMessage n) w host s = Ok s'"
     "delivered s' = delivered s @ map (\<lambda>v. (v, Message ''before-attach'')) (nodes t) @
        map (\<lambda>v. (v, Message ''after-attach'')) (nodes t)"
     "parentNode (elems s' nd) = Some host"
     "\<forall>v \<in> set (nodes t). w_boxSizing (widgets s' v) = None \<and> isAttached s' v"
     "w_flags (widgets s' w) =
       (if isHidden s w then insert IsAttached (w_flags (widgets s w))
        else insert IsAttached (insert IsVisible (w_flags (widgets s w))))"
    using attach_root [of s w t nd n host] by blast
  have "isHidden s w \<and> \<not> isVisible s w \<longrightarrow> isAttached s' w \<and> \<not> isVisible s' w"
    using s'(5) by (simp add: isAttached_def isVisible_def isHidden_def testFlag_def)
  then show "\<exists>s'. attach (sendMessage n) w host s = Ok s' \<and>
         delivered s' = delivered s @ map (\<lambda>v. (v, Message ''before-attach'')) (nodes t) @
            map (\<lambda>v. (v, Message ''after-attach'')) (nodes t) \<and>
         parentNode (elems s' nd) = Some host \<and>
         (\<forall>v \<in> set (nodes t). w_boxSizing (widgets s' v) = None \<and> isAttached s' v) \<and>
         w_flags (widgets s' w) =
           (if isHidden s w then insert IsAttached (w_flags (widgets s w))
            else insert IsAttached (insert IsVisible (w_flags (widgets s w)))) \<and>
         (isHidden s w \<and> \<not> isVisible s w \<longrightarrow> isAttached s' w \<and> \<not> isVisible s' w)"
    using s' by blast
next
  assume "is_tree s t \<and> root t = w \<and> distinct (nodes t) \<and> depth t \<le> n"
  then show "\<exists>s'. sendMessage n w (Message ''after-attach'') s = Ok s' \<and>
         w_flags (widgets s' w) =
           (if \<not> isHidden s w \<and>
               (case w_parent (widgets s w) of None \<Rightarrow> True | Some p \<Rightarrow> isVisible s p)
            then insert IsAttached (insert IsVisible (w_flags (widgets s w)))
            else insert IsAttached (w_flags (widgets s w)))"
    using after_attach_flags [of s t w n] by blast
qed

theorem attach_contract_witness:
  "w_parent (widgets ex_family 1) \<noteq> None \<and>
   attach (sendMessage 1) 1 (HostElement 0) ex_family =
     Throw (Error ''cannot attach a non-root widget to the DOM'') ex_family \<and>
   w_parent (widgets ex_hidden_chain 0) = None \<and>
   is_tree ex_hidden_chain (Node 0 [Node 1 [Node 2 []]]) \<and>
   distinct (nodes (Node 0 [Node 1 [Node 2 []]])) \<and>
   w_node (widgets ex_hidden_chain 0) = Some (WidgetNode 0) \<and>
   depth (Node 0 [Node 1 [Node 2 []]]) \<le> 3 \<and>
   isHidden ex_hidden_chain 1 \<and>
   (\<exists>s'. attach (sendMessage 3) 0 (HostElement 0) ex_hidden_chain = Ok s' \<and>
      delivered s' = delivered ex_hidden_chain @
        [(0, Message ''before-attach''), (1, Message ''before-attach''),
         (2, Message ''before-attach''), (0, Message ''after-attach''),
         (1, Message ''after-attach''), (2, Message ''after-attach'')] \<and>
      isAttached s' 1 \<and> isAttached s' 2 \<and> isVisible s' 0) \<and>
   isHidden ex_hidden_root 0 \<and> \<not> isVisible ex_hidden_root 0 \<and>
   (\<exists>s'. attach (sendMessage 1) 0 (HostElement 0) ex_hidden_root = Ok s' \<and>
      isAttached s' 0 \<and> \<not> isVisible s' 0)"
proof -
  let ?t = "Node 0 [Node 1 [Node 2 []]]"
  have f: "w_parent (widgets ex_family 1) \<noteq> None"
    by (simp add: ex_family_def)
  have c: "w_parent (widgets ex_hidden_chain 0) = None" "is_tree ex_hidden_chain ?t"
    "distinct (nodes ?t)" "w_node (widgets ex_hidden_chain 0) = Some (WidgetNode 0)"
    "depth ?t \<le> 3" "isHidden ex_hidden_chain 1" "\<not> isHidden ex_hidden_chain 0" "root ?t = 0"
    by (simp_all add: ex_hidden_chain_def initial_def new_Widget_def isHidden_def testFlag_def)
  have r: "w_parent (widgets ex_hidden_root 0) = None" "is_tree ex_hidden_root (Node 0 [])"
    "w_node (widgets ex_hidden_root 0) = Some (WidgetNode 0)"
    "isHidden ex_hidden_root 0" "\<not> isVisible ex_hidden_root 0"
    by (simp_all add: ex_hidden_root_def initial_def new_Widget_def isHidden_def isVisible_def
        testFlag_def)
  have 1: "attach (sendMessage 1) 1 (HostElement 0) ex_family =
     Throw (Error ''cannot attach a non-root widget to the DOM'') ex_family"
    using attach_contract [of ex_family 1 "sendMessage 1" "HostElement 0"] f by blast
  have 2: "\<exists>s'. attach (sendMessage 3) 0 (HostElement 0) ex_hidden_chain = Ok s' \<and>
      delivered s' = delivered ex_hidden_chain @
        [(0, Message ''before-attach''), (1, Message ''before-attach''),
         (2, Message ''before-attach''), (0, Message ''after-attach''),
         (1, Message ''after-attach''), (2, Message ''after-attach'')] \<and>
      isAttached s' 1 \<and> isAttached s' 2 \<and> isVisible s' 0"
    using attach_contract [of ex_hidden_chain 0 "sendMessage 3" "HostElement 0" ?t "WidgetNode 0" 3] c
    by (auto simp add: isVisible_def testFlag_def)
  have 3: "\<exists>s'. attach (sendMessage 1) 0 (HostElement 0) ex_hidden_root = Ok s' \<and>
      isAttached s' 0 \<and> \<not> isVisible s' 0"
    using attach_contract [of ex_hidden_root 0 "sendMessage 1" "HostElement 0" "Node 0 []" "WidgetNode 0" 1] r
    by auto
  show ?thesis using f c r 1 2 3 by simp
qed

section \<open>Reparenting\<close>

lemma is_tree_cong:
  "\<forall>v \<in> set (nodes t). arrays s' (ChildrenOf v) = arrays s (ChildrenOf v) \<Longrightarrow>
   is_tree s' t = is_tree s t"
proof (induction t)
  case (Node w ts)
  have "is_tree s' u = is_tree s u" if "u \<in> set ts" for u
    using Node.IH [OF that] Node.prems that by auto
  then show ?case using Node.prems by auto
qed

lemma is_tree_updA [simp]:
  "v \<notin> set (nodes t) \<Longrightarrow> is_tree (updA (ChildrenOf v) f s) t = is_tree s t"
  by (rule is_tree_cong) auto

lemma is_tree_upd [simp]:
  "is_tree (updW w g s) t = is_tree s t"
  "is_tree (updE e h s) t = is_tree s t"
  "is_tree (updL l k s) t = is_tree s t"
  "is_tree (setFlag w fl s) t = is_tree s t"
  "is_tree (clearFlag w fl s) t = is_tree s t"
  "is_tree (s\<lparr>delivered := d\<rparr>) t = is_tree s t"
  by (rule is_tree_arrays; simp)+

lemma removeChild_node:
  "parentNode (elems s c) = Some host \<Longrightarrow>
   removeChild host (Some c) s = Ok (updE c (\<lambda>e. e\<lparr>parentNode := None\<rparr>) s)"
  by (simp add: removeChild_def)

lemma sendMessage_child_removed:
  assumes "is_tree s t" and "root t = a" and "depth t \<le> k"
    and "w_node (widgets s a) = Some na" and "w_node (widgets s b) = Some nb"
    and "parentNode (elems s na) = Some nb"
  shows "sendMessage (Suc k) b (ChildMessage ''child-removed'' a) s =
     Ok (if isAttached s b
         then detached t na (s\<lparr>delivered := delivered s @ [(b, ChildMessage ''child-removed'' a)]\<rparr>)
         else updE na (\<lambda>e. e\<lparr>parentNode := None\<rparr>)
                (s\<lparr>delivered := delivered s @ [(b, ChildMessage ''child-removed'' a)]\<rparr>))"
proof -
  let ?BD = "Message ''before-detach''" and ?AD = "Message ''after-detach''"
  define s0 where "s0 = s\<lparr>delivered := delivered s @ [(b, ChildMessage ''child-removed'' a)]\<rparr>"
  define s1 where "s1 = fan ?BD t s0"
  define s2 where "s2 = updE na (\<lambda>e. e\<lparr>parentNode := None\<rparr>) s1"
  have arr0: "arrays s0 = arrays s" by (simp add: s0_def)
  have tree0: "is_tree s0 t" using assms(1) is_tree_arrays [OF arr0] by simp
  have a: "sendMessage k a ?BD s0 = Ok s1"
    using sendMessage_fan [OF tree0 _ assms(3), of ?BD] assms(2) by (simp add: s1_def)
  have n1: "w_node (widgets s1 a) = Some na" "w_node (widgets s1 b) = Some nb"
    "parentNode (elems s1 na) = Some nb"
    using fan_widget [of ?BD t s0] fan_fields [of ?BD t s0] assms(4,5,6)
    by (simp_all add: s1_def s0_def)
  have arr2: "arrays s2 = arrays s" by (simp add: s2_def s1_def s0_def)
  have tree2: "is_tree s2 t" using assms(1) is_tree_arrays [OF arr2] by simp
  have c: "sendMessage k a ?AD s2 = Ok (fan ?AD t s2)"
    using sendMessage_fan [OF tree2 _ assms(3), of ?AD] assms(2) by simp
  have n0: "w_node (widgets s0 a) = Some na" "w_node (widgets s0 b) = Some nb"
    "parentNode (elems s0 na) = Some nb" "isAttached s0 b = isAttached s b"
    using assms(4,5,6) by (simp_all add: s0_def)
  show ?thesis
    using a c n1 n0
    by (simp add: processMessage_def onChildRemoved_def node_removeChild_def removeChild_node
        detached_def s0_def [symmetric] s1_def [symmetric] s2_def [symmetric])
qed

lemma sendMessage_child_added:
  assumes "is_tree s t" and "root t = a" and "depth t \<le> k"
    and "w_node (widgets s a) = Some na" and "w_node (widgets s c) = Some nc"
  shows "sendMessage (Suc k) c (ChildMessage ''child-added'' a) s =
     Ok (if isAttached s c
         then attached t na nc (s\<lparr>delivered := delivered s @ [(c, ChildMessage ''child-added'' a)]\<rparr>)
         else updE na (\<lambda>e. e\<lparr>parentNode := Some nc\<rparr>)
                (s\<lparr>delivered := delivered s @ [(c, ChildMessage ''child-added'' a)]\<rparr>))"
proof -
  let ?BA = "Message ''before-attach''" and ?AA = "Message ''after-attach''"
  define s0 where "s0 = s\<lparr>delivered := delivered s @ [(c, ChildMessage ''child-added'' a)]\<rparr>"
  define s1 where "s1 = fan ?BA t s0"
  define s2 where "s2 = updE na (\<lambda>e. e\<lparr>parentNode := Some nc\<rparr>) s1"
  have arr0: "arrays s0 = arrays s" by (simp add: s0_def)
  have tree0: "is_tree s0 t" using assms(1) is_tree_arrays [OF arr0] by simp
  have a: "sendMessage k a ?BA s0 = Ok s1"
    using sendMessage_fan [OF tree0 _ assms(3), of ?BA] assms(2) by (simp add: s1_def)
  have n1: "w_node (widgets s1 a) = Some na" "w_node (widgets s1 c) = Some nc"
    using fan_widget [of ?BA t s0] assms(4,5)
    by (simp_all add: s1_def s0_def)
  have arr2: "arrays s2 = arrays s" by (simp add: s2_def s1_def s0_def)
  have tree2: "is_tree s2 t" using assms(1) is_tree_arrays [OF arr2] by simp
  have c: "sendMessage k a ?AA s2 = Ok (fan ?AA t s2)"
    using sendMessage_fan [OF tree2 _ assms(3), of ?AA] assms(2) by simp
  have n0: "w_node (widgets s0 a) = Some na" "w_node (widgets s0 c) = Some nc"
    "isAttached s0 c = isAttached s c"
    using assms(4,5) by (simp_all add: s0_def)
  show ?thesis
    using a c n1 n0
    by (simp add: processMessage_def onChildAdded_def node_appendChild_def
        attached_def s0_def [symmetric] s1_def [symmetric] s2_def [symmetric])
qed

lemma detached_props:
  "delivered (detached t na s) = delivered s @ map (\<lambda>v. (v, Message ''before-detach'')) (nodes t) @
      map (\<lambda>v. (v, Message ''after-detach'')) (nodes t)"
  "arrays (detached t na s) = arrays s"
  "w_parent (widgets (detached t na s) v) = w_parent (widgets s v)"
  "w_node (widgets (detached t na s) v) = w_node (widgets s v)"
  "v \<notin> set (nodes t) \<Longrightarrow> widgets (detached t na s) v = widgets s v"
  using fan_widget [of "Message ''after-detach''" t
      "updE na (\<lambda>e. e\<lparr>parentNode := None\<rparr>) (fan (Message ''before-detach'') t s)" v]
    fan_widget [of "Message ''before-detach''" t s v]
  by (simp_all add: detached_def fan_delivered_all fan_frame)

lemma attached_props:
  "delivered (attached t na nc s) = delivered s @ map (\<lambda>v. (v, Message ''before-attach'')) (nodes t) @
      map (\<lambda>v. (v, Message ''after-attach'')) (nodes t)"
  "arrays (attached t na nc s) = arrays s"
  "w_parent (widgets (attached t na nc s) v) = w_parent (widgets s v)"
  "w_node (widgets (attached t na nc s) v) = w_node (widgets s v)"
  "v \<notin> set (nodes t) \<Longrightarrow> widgets (attached t na nc s) v = widgets s v"
  using fan_widget [of "Message ''after-attach''" t
      "updE na (\<lambda>e. e\<lparr>parentNode := Some nc\<rparr>) (fan (Message ''before-attach'') t s)" v]
    fan_widget [of "Message ''before-attach''" t s v]
  by (simp_all add: attached_def fan_delivered_all fan_frame)

lemma set_parent_moves:
  assumes "w_parent (widgets s a) = Some b" and "c \<noteq> b"
    and "is_tree s t" and "root t = a" and "b \<notin> set (nodes t)" and "c \<notin> set (nodes t)"
    and "w_node (widgets s a) = Some na" and "w_node (widgets s b) = Some nb"
    and "w_node (widgets s c) = Some nc" and "parentNode (elems s na) = Some nb"
    and "depth t < n"
  shows "\<exists>s'. set_parent (sendMessage n) a (Some c) s = Ok s' \<and>
     delivered s' = delivered s @ [(b, ChildMessage ''child-removed'' a)] @
       (if isAttached s b
        then map (\<lambda>v. (v, Message ''before-detach'')) (nodes t) @
             map (\<lambda>v. (v, Message ''after-detach'')) (nodes t)
        else []) @
       [(c, ChildMessage ''child-added'' a)] @
       (if isAttached s c
        then map (\<lambda>v. (v, Message ''before-attach'')) (nodes t) @
             map (\<lambda>v. (v, Message ''after-attach'')) (nodes t)
        else []) @
       [(a, Message ''parent-changed'')] \<and>
     w_parent (widgets s' a) = Some c \<and>
     arrays s' (ChildrenOf b) = remove1 (Some a) (arrays s (ChildrenOf b)) \<and>
     arrays s' (ChildrenOf c) = arrays s (ChildrenOf c) @ [Some a]"
proof -
  obtain k where n: "n = Suc k" and k: "depth t \<le> k"
    using assms(11) by (cases n) auto
  have ab: "a \<noteq> b" and ac: "a \<noteq> c"
    using assms(4,5,6) by (cases t; auto)+
  let ?CR = "ChildMessage ''child-removed'' a" and ?CA = "ChildMessage ''child-added'' a"
  define s0 where "s0 = algo_remove (ChildrenOf b) a (updW a (\<lambda>r. r\<lparr>w_parent := None\<rparr>) s)"
  define s0' where "s0' = s0\<lparr>delivered := delivered s0 @ [(b, ?CR)]\<rparr>"
  define s1 where "s1 = (if isAttached s b then detached t na s0'
                         else updE na (\<lambda>e. e\<lparr>parentNode := None\<rparr>) s0')"
  define s2 where "s2 = updA (ChildrenOf c) (\<lambda>cs. cs @ [Some a])
                          (updW a (\<lambda>r. r\<lparr>w_parent := Some c\<rparr>) s1)"
  define s2' where "s2' = s2\<lparr>delivered := delivered s2 @ [(c, ?CA)]\<rparr>"
  define s3 where "s3 = (if isAttached s c then attached t na nc s2'
                         else updE na (\<lambda>e. e\<lparr>parentNode := Some nc\<rparr>) s2')"
  have tree0: "is_tree s0 t"
    using assms(3,5) by (simp add: s0_def algo_remove_def)
  have f0: "w_node (widgets s0 a) = Some na" "w_node (widgets s0 b) = Some nb"
    "parentNode (elems s0 na) = Some nb" "isAttached s0 b = isAttached s b"
    using assms(7,8,10) ab
    by (simp_all add: s0_def algo_remove_def isAttached_def testFlag_def)
  have r1: "sendMessage n b ?CR s0 = Ok s1"
    using sendMessage_child_removed [OF tree0 assms(4) k f0(1,2,3)] f0(4)
    by (simp add: n s1_def s0'_def)
  have arr1: "arrays s1 = arrays s0"
    by (simp add: s1_def s0'_def detached_props)
  have w1: "w_node (widgets s1 v) = w_node (widgets s0 v)"
    "v \<notin> set (nodes t) \<Longrightarrow> widgets s1 v = widgets s0 v" for v
    by (simp_all add: s1_def s0'_def detached_props)
  have tree2: "is_tree s2 t"
    using tree0 assms(6) is_tree_arrays [OF arr1] by (simp add: s2_def)
  have f2: "w_node (widgets s2 a) = Some na" "w_node (widgets s2 c) = Some nc"
    "isAttached s2 c = isAttached s c"
    using assms(6,7,9) ac w1 f0
    by (simp_all add: s2_def s0_def algo_remove_def isAttached_def testFlag_def)
  have r2: "sendMessage n c ?CA s2 = Ok s3"
    using sendMessage_child_added [OF tree2 assms(4) k f2(1,2)] f2(3)
    by (simp add: n s3_def s2'_def)
  have r3: "sendMessage n a (Message ''parent-changed'') s3 =
      Ok (s3\<lparr>delivered := delivered s3 @ [(a, Message ''parent-changed'')]\<rparr>)"
    by (simp add: n processMessage_ignored)
  have run: "set_parent (sendMessage n) a (Some c) s =
      Ok (s3\<lparr>delivered := delivered s3 @ [(a, Message ''parent-changed'')]\<rparr>)"
    using assms(1,2) r1 r2 r3
    by (simp add: set_parent_def s0_def [symmetric] s2_def [symmetric])
  have d1: "delivered s1 = delivered s @ [(b, ?CR)] @
       (if isAttached s b
        then map (\<lambda>v. (v, Message ''before-detach'')) (nodes t) @
             map (\<lambda>v. (v, Message ''after-detach'')) (nodes t)
        else [])"
    by (simp add: s1_def s0'_def s0_def algo_remove_def detached_props)
  have d3: "delivered s3 = delivered s1 @ [(c, ?CA)] @
       (if isAttached s c
        then map (\<lambda>v. (v, Message ''before-attach'')) (nodes t) @
             map (\<lambda>v. (v, Message ''after-attach'')) (nodes t)
        else [])"
    by (simp add: s3_def s2'_def s2_def attached_props)
  have p3: "w_parent (widgets s3 a) = Some c"
    by (simp add: s3_def s2'_def s2_def attached_props)
  have a3: "arrays s3 = arrays s2"
    by (simp add: s3_def s2'_def attached_props)
  have ab3: "arrays s3 (ChildrenOf b) = remove1 (Some a) (arrays s (ChildrenOf b))"
    "arrays s3 (ChildrenOf c) = arrays s (ChildrenOf c) @ [Some a]"
    using assms(2) by (simp_all add: a3 s2_def arr1 s0_def algo_remove_def)
  show ?thesis
    using run d1 d3 p3 ab3 by simp
qed

lemma attach_run:
  assumes "w_parent (widgets s w) = None" and "is_tree s t" and "root t = w"
    and "w_node (widgets s w) = Some nd" and "depth t \<le> n"
  shows "attach (sendMessage n) w host s = Ok (attached t nd host s)"
proof -
  let ?BA = "Message ''before-attach''" and ?AA = "Message ''after-attach''"
  define s1 where "s1 = fan ?BA t s"
  define s2 where "s2 = updE nd (\<lambda>e. e\<lparr>parentNode := Some host\<rparr>) s1"
  have a: "sendMessage n w ?BA s = Ok s1"
    using sendMessage_fan [OF assms(2) _ assms(5), of ?BA] assms(3) by (simp add: s1_def)
  have node1: "w_node (widgets s1 w) = Some nd"
    using fan_widget [of ?BA t s w] assms(4) by (simp add: s1_def)
  have tree2: "is_tree s2 t" using assms(2) by (simp add: s2_def s1_def is_tree_arrays [of "fan ?BA t s" s])
  have c: "sendMessage n w ?AA s2 = Ok (fan ?AA t s2)"
    using sendMessage_fan [OF tree2 _ assms(5), of ?AA] assms(3) by simp
  show ?thesis
    using assms(1) a node1 c by (simp add: attach_def attached_def s2_def s1_def)
qed

lemma ex_attached_family_reached:
  "attach (sendMessage 2) 0 (HostElement 0) ex_family = Ok ex_attached_family"
  unfolding ex_attached_family_def
  by (rule attach_run) (simp_all add: ex_family_def initial_def new_Widget_def)

lemma attached_elems:
  "elems (attached t na nc s) = (elems s)(na := (elems s na)\<lparr>parentNode := Some nc\<rparr>)"
  using fan_fields [of "Message ''after-attach''" t
      "updE na (\<lambda>e. e\<lparr>parentNode := Some nc\<rparr>) (fan (Message ''before-attach'') t s)"]
    fan_fields [of "Message ''before-attach''" t s]
  by (simp add: attached_def)

lemma attached_flags:
  "v \<in> set (nodes t) \<Longrightarrow> isAttached (attached t na nc s) v"
  unfolding attached_def isAttached_def testFlag_def
  by (rule fan_reaches [where Q = "\<lambda>r. IsAttached \<in> w_flags r"])
     (simp_all add: own_effect_def)

lemma ex_family_facts:
  "w_parent (widgets ex_family 1) = Some 0"
  "is_tree ex_family (Node 1 [])"
  "w_node (widgets ex_family 1) = Some (WidgetNode 1)"
  "w_node (widgets ex_family 0) = Some (WidgetNode 0)"
  "w_node (widgets ex_family 3) = Some (WidgetNode 3)"
  "parentNode (elems ex_family (WidgetNode 1)) = Some (WidgetNode 0)"
  "\<not> isAttached ex_family 0" "\<not> isAttached ex_family 3" "delivered ex_family =
     [(0, ChildMessage ''child-added'' 1), (1, Message ''parent-changed''),
      (0, ChildMessage ''child-added'' 2), (2, Message ''parent-changed'')]"
  by (simp_all add: ex_family_def initial_def new_Widget_def isAttached_def testFlag_def)

lemma ex_attached_family_facts:
  "w_parent (widgets ex_attached_family 1) = Some 0"
  "is_tree ex_attached_family (Node 1 [])"
  "w_node (widgets ex_attached_family 1) = Some (WidgetNode 1)"
  "w_node (widgets ex_attached_family 0) = Some (WidgetNode 0)"
  "w_node (widgets ex_attached_family 3) = Some (WidgetNode 3)"
  "parentNode (elems ex_attached_family (WidgetNode 1)) = Some (WidgetNode 0)"
  "isAttached ex_attached_family 0" "\<not> isAttached ex_attached_family 3"
proof -
  let ?t = "Node 0 [Node 1 [], Node 2 []]"
  have "arrays ex_attached_family = arrays ex_family"
    by (simp add: ex_attached_family_def attached_props)
  then show "is_tree ex_attached_family (Node 1 [])"
    using ex_family_facts(2) is_tree_arrays by blast
  show "w_parent (widgets ex_attached_family 1) = Some 0"
    "w_node (widgets ex_attached_family 1) = Some (WidgetNode 1)"
    "w_node (widgets ex_attached_family 0) = Some (WidgetNode 0)"
    "w_node (widgets ex_attached_family 3) = Some (WidgetNode 3)"
    using ex_family_facts by (simp_all add: ex_attached_family_def attached_props)
  show "parentNode (elems ex_attached_family (WidgetNode 1)) = Some (WidgetNode 0)"
    using ex_family_facts by (simp add: ex_attached_family_def attached_elems)
  show "isAttached ex_attached_family 0"
    unfolding ex_attached_family_def by (rule attached_flags) simp
  have "widgets ex_attached_family 3 = widgets ex_family 3"
    unfolding ex_attached_family_def by (rule attached_props(5)) simp
  then show "\<not> isAttached ex_attached_family 3"
    using ex_family_facts(8) by (simp add: isAttached_def testFlag_def)
qed

text \<open>
  Claim C4, as amended. Assigning the current parent returns at once. Assigning to a
  widget \<open>a\<close> with parent \<open>b\<close> another parent \<open>c\<close> (neither of them below \<open>a\<close>, the
  nodes not null, the node of \<open>a\<close> a child of the node of \<open>b\<close>) delivers
  \<open>child-removed\<close> to \<open>b\<close>, \<open>child-added\<close> to \<open>c\<close> and \<open>parent-changed\<close> to \<open>a\<close>, in
  this order. When \<open>b\<close> is attached, its handler delivers \<open>before-detach\<close> and
  \<open>after-detach\<close> to \<open>a\<close> and the widgets below it right after \<open>child-removed\<close>; when
  \<open>c\<close> is attached, its handler delivers \<open>before-attach\<close> and \<open>after-attach\<close> to them
  right after \<open>child-added\<close>. When neither is attached the three messages are all.
\<close>

theorem set_parent_messages:
  "set_parent send a (w_parent (widgets s a)) s = Ok s \<and>
   (w_parent (widgets s a) = Some b \<and> c \<noteq> b \<and>
    is_tree s t \<and> root t = a \<and> b \<notin> set (nodes t) \<and> c \<notin> set (nodes t) \<and>
    w_node (widgets s a) = Some na \<and> w_node (widgets s b) = Some nb \<and>
    w_node (widgets s c) = Some nc \<and> parentNode (elems s na) = Some nb \<and> depth t < n \<longrightarrow>
    (\<exists>s'. set_parent (sendMessage n) a (Some c) s = Ok s' \<and>
       delivered s' = delivered s @ [(b, ChildMessage ''child-removed'' a)] @
         (if isAttached s b
          then map (\<lambda>v. (v, Message ''before-detach'')) (nodes t) @
               map (\<lambda>v. (v, Message ''after-detach'')) (nodes t)
          else []) @
         [(c, ChildMessage ''child-added'' a)] @
         (if isAttached s c
          then map (\<lambda>v. (v, Message ''before-attach'')) (nodes t) @
               map (\<lambda>v. (v, Message ''after-attach'')) (nodes t)
          else []) @
         [(a, Message ''parent-changed'')] \<and>
       w_parent (widgets s' a) = Some c \<and>
       arrays s' (ChildrenOf b) = remove1 (Some a) (arrays s (ChildrenOf b)) \<and>
       arrays s' (ChildrenOf c) = arrays s (ChildrenOf c) @ [Some a]))"
proof (intro conjI impI)
  show "set_parent send a (w_parent (widgets s a)) s = Ok s"
    by (simp add: set_parent_def)
next
  assume "w_parent (widgets s a) = Some b \<and> c \<noteq> b \<and>
    is_tree s t \<and> root t = a \<and> b \<notin> set (nodes t) \<and> c \<notin> set (nodes t) \<and>
    w_node (widgets s a) = Some na \<and> w_node (widgets s b) = Some nb \<and>
    w_node (widgets s c) = Some nc \<and> parentNode (elems s na) = Some nb \<and> depth t < n"
  then show "\<exists>s'. set_parent (sendMessage n) a (Some c) s = Ok s' \<and>
       delivered s' = delivered s @ [(b, ChildMessage ''child-removed'' a)] @
         (if isAttached s b
          then map (\<lambda>v. (v, Message ''before-detach'')) (nodes t) @
               map (\<lambda>v. (v, Message ''after-detach'')) (nodes t)
          else []) @
         [(c, ChildMessage ''child-added'' a)] @
         (if isAttached s c
          then map (\<lambda>v. (v, Message ''before-attach'')) (nodes t) @
               map (\<lambda>v. (v, Message ''after-attach'')) (nodes t)
          else []) @
         [(a, Message ''parent-changed'')] \<and>
       w_parent (widgets s' a) = Some c \<and>
       arrays s' (ChildrenOf b) = remove1 (Some a) (arrays s (ChildrenOf b)) \<and>
       arrays s' (ChildrenOf c) = arrays s (ChildrenOf c) @ [Some a]"
    using set_parent_moves [of s a b c t na nb nc n] by blast
qed

theorem set_parent_messages_witness:
  "w_parent (widgets ex_family 1) = Some 0 \<and> is_tree ex_family (Node 1 []) \<and>
   parentNode (elems ex_family (WidgetNode 1)) = Some (WidgetNode 0) \<and>
   \<not> isAttached ex_family 0 \<and> \<not> isAttached ex_family 3 \<and>
   (\<exists>s'. set_parent (sendMessage 2) 1 (Some 3) ex_family = Ok s' \<and>
      delivered s' = delivered ex_family @
        [(0, ChildMessage ''child-removed'' 1), (3, ChildMessage ''child-added'' 1),
         (1, Message ''parent-changed'')] \<and>
      arrays s' (ChildrenOf 0) = [Some 2] \<and> arrays s' (ChildrenOf 3) = [Some 1]) \<and>
   set_parent (sendMessage 2) 1 (Some 0) ex_family = Ok ex_family"
proof -
  have a: "arrays ex_family (ChildrenOf 0) = [Some 1, Some 2]" "arrays ex_family (ChildrenOf 3) = []"
    by (simp_all add: ex_family_def initial_def)
  have "\<exists>s'. set_parent (sendMessage 2) 1 (Some 3) ex_family = Ok s' \<and>
      delivered s' = delivered ex_family @
        [(0, ChildMessage ''child-removed'' 1), (3, ChildMessage ''child-added'' 1),
         (1, Message ''parent-changed'')] \<and>
      arrays s' (ChildrenOf 0) = [Some 2] \<and> arrays s' (ChildrenOf 3) = [Some 1]"
    using set_parent_messages [of "sendMessage 2" 1 ex_family 0 3 "Node 1 []"
        "WidgetNode 1" "WidgetNode 0" "WidgetNode 3" 2] ex_family_facts(1-8) a
    by auto
  moreover have "set_parent (sendMessage 2) 1 (Some 0) ex_family = Ok ex_family"
    using set_parent_messages [of "sendMessage 2" 1 ex_family] ex_family_facts(1) by simp
  ultimately show ?thesis using ex_family_facts by simp
qed

text \<open>
  Claim C4 as stated fails when the old parent is attached: five messages are
  delivered, two of them to the widget itself before \<open>child-added\<close>.
\<close>

theorem set_parent_attached_counterexample:
  "isAttached ex_attached_family 0 \<and>
   w_parent (widgets ex_attached_family 1) = Some 0 \<and>
   map_result (\<lambda>s. drop (length (delivered ex_attached_family)) (delivered s))
     (set_parent (sendMessage 2) 1 (Some 3) ex_attached_family) =
   Ok [(0, ChildMessage ''child-removed'' 1), (1, Message ''before-detach''),
       (1, Message ''after-detach''), (3, ChildMessage ''child-added'' 1),
       (1, Message ''parent-changed'')]"
proof -
  obtain s' where "set_parent (sendMessage 2) 1 (Some 3) ex_attached_family = Ok s'"
    "delivered s' = delivered ex_attached_family @
       [(0, ChildMessage ''child-removed'' 1), (1, Message ''before-detach''),
       (1, Message ''after-detach''), (3, ChildMessage ''child-added'' 1),
       (1, Message ''parent-changed'')]"
    using set_parent_moves [of ex_attached_family 1 0 3 "Node 1 []"
        "WidgetNode 1" "WidgetNode 0" "WidgetNode 3" 2] ex_attached_family_facts
    by auto
  then show ?thesis using ex_attached_family_facts by simp
qed


section \<open>Claim C2: disposing the root of a tree\<close>

lemma disposed_node_cong:
  "widgets s' v = widgets s v \<Longrightarrow> arrays s' (ChildrenOf v) = arrays s (ChildrenOf v) \<Longrightarrow>
   disposed_node s' v = disposed_node s v"
  by (simp add: disposed_node_def isDisposed_def testFlag_def)

lemma root_in_nodes [simp]: "root t \<in> set (nodes t)"
  by (cases t) simp

lemma dispose_children_forest:
  assumes spec: "\<And>u s. u \<in> set us \<Longrightarrow> is_tree s u \<Longrightarrow> live s (nodes u) \<Longrightarrow>
       w_parent (widgets s (root u)) = None \<Longrightarrow>
       \<exists>s'. disp (root u) s = Ok s' \<and> disposal (nodes u) s s'"
    and "\<forall>u \<in> set us. is_tree s u \<and> live s (nodes u)"
    and "distinct (concat (map nodes us))" and "w \<notin> set (concat (map nodes us))"
  shows "\<exists>s'. dispose_children disp w i (map (\<lambda>u. Some (root u)) us) s = Ok s' \<and>
      emitted s' = emitted s @ concat (map nodes us) \<and>
      (\<forall>v \<in> set (concat (map nodes us)). disposed_node s' v) \<and>
      (\<forall>v. v \<notin> set (concat (map nodes us)) \<longrightarrow>
         widgets s' v = widgets s v \<and>
         (v \<noteq> w \<longrightarrow> arrays s' (ChildrenOf v) = arrays s (ChildrenOf v)))"
  using assms
proof (induction us arbitrary: s i)
  case Nil
  then show ?case by simp
next
  case (Cons u us)
  let ?rest = "concat (map nodes us)"
  define sa where "sa = updW (root u) (\<lambda>r. r\<lparr>w_parent := None\<rparr>)
                          (updA (ChildrenOf w) (\<lambda>a. a[i := None]) s)"
  have wu: "w \<notin> set (nodes u)" and wr: "w \<notin> set ?rest"
    using Cons.prems(4) by auto
  have disj: "set (nodes u) \<inter> set ?rest = {}" and du: "distinct ?rest"
    using Cons.prems(3) by auto
  have tree_a: "is_tree sa u"
    using Cons.prems(2) wu by (simp add: sa_def)
  have live_a: "live sa (nodes u)"
    using Cons.prems(2) by (auto simp add: sa_def live_def)
  have par_a: "w_parent (widgets sa (root u)) = None"
    by (simp add: sa_def)
  obtain sb where sb: "disp (root u) sa = Ok sb" "disposal (nodes u) sa sb"
    using Cons.prems(1) [of u sa] tree_a live_a par_a by auto
  have frame_b: "widgets sb v = widgets sa v" "arrays sb (ChildrenOf v) = arrays sa (ChildrenOf v)"
    if "v \<notin> set (nodes u)" for v
    using sb(2) that by (simp_all add: disposal_def)
  have same_rest: "widgets sb v = widgets s v \<and> arrays sb (ChildrenOf v) = arrays s (ChildrenOf v)"
    if "v \<in> set ?rest" for v
  proof -
    have "v \<notin> set (nodes u)" "v \<noteq> w"
      using that disj wr by auto
    moreover from this have "v \<noteq> root u"
      using root_in_nodes [of u] by metis
    ultimately show ?thesis using frame_b [of v] by (simp add: sa_def)
  qed
  have trees_b: "\<forall>u' \<in> set us. is_tree sb u' \<and> live sb (nodes u')"
  proof
    fix u' assume u': "u' \<in> set us"
    then have sub: "set (nodes u') \<subseteq> set ?rest" by auto
    have eq: "widgets sb v = widgets s v" "arrays sb (ChildrenOf v) = arrays s (ChildrenOf v)"
      if "v \<in> set (nodes u')" for v
      using sub same_rest that by blast+
    have "is_tree sb u' = is_tree s u'"
      by (rule is_tree_cong) (simp add: eq)
    moreover have "live sb (nodes u') = live s (nodes u')"
      unfolding live_def by (rule ball_cong) (simp_all add: eq)
    ultimately show "is_tree sb u' \<and> live sb (nodes u')"
      using Cons.prems(2) u' by simp
  qed
  have "\<exists>s'. dispose_children disp w (Suc i) (map (\<lambda>u. Some (root u)) us) sb = Ok s' \<and>
      emitted s' = emitted sb @ ?rest \<and>
      (\<forall>v \<in> set ?rest. disposed_node s' v) \<and>
      (\<forall>v. v \<notin> set ?rest \<longrightarrow>
         widgets s' v = widgets sb v \<and>
         (v \<noteq> w \<longrightarrow> arrays s' (ChildrenOf v) = arrays sb (ChildrenOf v)))"
    by (rule Cons.IH) (use Cons.prems(1) trees_b du wr in auto)
  then obtain s' where s': "dispose_children disp w (Suc i) (map (\<lambda>u. Some (root u)) us) sb = Ok s'"
      "emitted s' = emitted sb @ ?rest"
      "\<forall>v \<in> set ?rest. disposed_node s' v"
      "\<forall>v. v \<notin> set ?rest \<longrightarrow>
         widgets s' v = widgets sb v \<and>
         (v \<noteq> w \<longrightarrow> arrays s' (ChildrenOf v) = arrays sb (ChildrenOf v))"
    by blast
  have run: "dispose_children disp w i (map (\<lambda>u. Some (root u)) (u # us)) s = Ok s'"
    using sb(1) s'(1) by (simp add: sa_def Let_def)
  have em: "emitted s' = emitted s @ concat (map nodes (u # us))"
    using s'(2) sb(2) by (simp add: disposal_def sa_def)
  have dn: "disposed_node s' v" if "v \<in> set (concat (map nodes (u # us)))" for v
  proof (cases "v \<in> set ?rest")
    case True then show ?thesis using s'(3) by blast
  next
    case False
    then have v: "v \<in> set (nodes u)" "v \<noteq> w" using that wu by auto
    then have "disposed_node sb v" using sb(2) by (simp add: disposal_def)
    moreover have "disposed_node s' v = disposed_node sb v"
      by (rule disposed_node_cong) (use s'(4) False v in auto)
    ultimately show ?thesis by simp
  qed
  have fr: "widgets s' v = widgets s v \<and>
         (v \<noteq> w \<longrightarrow> arrays s' (ChildrenOf v) = arrays s (ChildrenOf v))"
    if "v \<notin> set (concat (map nodes (u # us)))" for v
  proof -
    have v: "v \<notin> set (nodes u)" "v \<notin> set ?rest" using that by auto
    then have "v \<noteq> root u" using root_in_nodes [of u] by metis
    note v = v this
    show ?thesis using s'(4) v frame_b [of v] by (simp add: sa_def)
  qed
  show ?case using run em dn fr by blast
qed

lemma detach_run:
  assumes "w_parent (widgets s w) = None" and "is_tree s t" and "root t = w"
    and "w_node (widgets s w) = Some nd" and "depth t \<le> n"
  shows "detach (sendMessage n) w s =
     Ok (case parentNode (elems s nd) of None \<Rightarrow> s | Some host \<Rightarrow> detached t nd s)"
proof (cases "parentNode (elems s nd)")
  case None
  then show ?thesis using assms(1,4) by (simp add: detach_def)
next
  case (Some host)
  let ?BD = "Message ''before-detach''" and ?AD = "Message ''after-detach''"
  define s1 where "s1 = fan ?BD t s"
  define s2 where "s2 = updE nd (\<lambda>e. e\<lparr>parentNode := None\<rparr>) s1"
  have a: "sendMessage n w ?BD s = Ok s1"
    using sendMessage_fan [OF assms(2) _ assms(5), of ?BD] assms(3) by (simp add: s1_def)
  have n1: "w_node (widgets s1 w) = Some nd" "parentNode (elems s1 nd) = Some host"
    using fan_widget [of ?BD t s w] fan_fields [of ?BD t s] assms(4) Some
    by (simp_all add: s1_def)
  have tree2: "is_tree s2 t"
    using assms(2) by (simp add: s2_def s1_def is_tree_arrays [of "fan ?BD t s" s])
  have c: "sendMessage n w ?AD s2 = Ok (fan ?AD t s2)"
    using sendMessage_fan [OF tree2 _ assms(5), of ?AD] assms(3) by simp
  show ?thesis
    using assms(1,4) Some a n1 c
    by (simp add: detach_def detached_def removeChild_node s2_def s1_def)
qed

lemma detached_more:
  "emitted (detached t na s) = emitted s"
  "w_layout (widgets (detached t na s) v) = w_layout (widgets s v)"
  "isDisposed (detached t na s) v = isDisposed s v"
  using fan_widget [of "Message ''after-detach''" t
      "updE na (\<lambda>e. e\<lparr>parentNode := None\<rparr>) (fan (Message ''before-detach'') t s)" v]
    fan_widget [of "Message ''before-detach''" t s v]
    fan_fields [of "Message ''after-detach''" t
      "updE na (\<lambda>e. e\<lparr>parentNode := None\<rparr>) (fan (Message ''before-detach'') t s)"]
    fan_fields [of "Message ''before-detach''" t s]
  by (simp_all add: detached_def isDisposed_def testFlag_def)

lemma detached_flags:
  "v \<in> set (nodes t) \<Longrightarrow> \<not> isAttached (detached t na s) v"
  unfolding detached_def isAttached_def testFlag_def
  by (rule fan_reaches [where Q = "\<lambda>r. IsAttached \<notin> w_flags r"])
     (simp_all add: own_effect_def)

lemma dispose_rest:
  assumes spec: "\<And>u s. u \<in> set ts \<Longrightarrow> is_tree s u \<Longrightarrow> live s (nodes u) \<Longrightarrow>
       w_parent (widgets s (root u)) = None \<Longrightarrow>
       \<exists>s'. disp (root u) s = Ok s' \<and> disposal (nodes u) s s'"
    and "is_tree s3 (Node w ts)" and "distinct (nodes (Node w ts))"
    and "live s3 (concat (map nodes ts))"
  shows "\<exists>s5. seq (dispose_children disp w 0 (arrays s3 (ChildrenOf w)) s3)
            (\<lambda>s4. Ok (updW w (\<lambda>r. r\<lparr>w_node := None\<rparr>) (updA (ChildrenOf w) (\<lambda>a. []) s4))) = Ok s5 \<and>
     emitted s5 = emitted s3 @ concat (map nodes ts) \<and>
     (\<forall>v \<in> set (concat (map nodes ts)). disposed_node s5 v) \<and>
     widgets s5 w = (widgets s3 w)\<lparr>w_node := None\<rparr> \<and> arrays s5 (ChildrenOf w) = [] \<and>
     (\<forall>v. v \<notin> set (nodes (Node w ts)) \<longrightarrow>
        widgets s5 v = widgets s3 v \<and> arrays s5 (ChildrenOf v) = arrays s3 (ChildrenOf v))"
proof -
  let ?kids = "concat (map nodes ts)"
  have wk: "w \<notin> set ?kids" and dk: "distinct ?kids"
    using assms(3) by auto
  have trees3: "\<forall>u \<in> set ts. is_tree s3 u \<and> live s3 (nodes u)"
    using assms(2,4) by (auto simp add: live_def)
  obtain s4 where s4: "dispose_children disp w 0 (map (\<lambda>u. Some (root u)) ts) s3 = Ok s4"
      "emitted s4 = emitted s3 @ ?kids"
      "\<forall>v \<in> set ?kids. disposed_node s4 v"
      "\<forall>v. v \<notin> set ?kids \<longrightarrow>
         widgets s4 v = widgets s3 v \<and>
         (v \<noteq> w \<longrightarrow> arrays s4 (ChildrenOf v) = arrays s3 (ChildrenOf v))"
    using dispose_children_forest [of ts disp s3 w 0, OF spec trees3 dk wk]
    by blast
  define s5 where "s5 = updW w (\<lambda>r. r\<lparr>w_node := None\<rparr>) (updA (ChildrenOf w) (\<lambda>a. []) s4)"
  have kids3: "arrays s3 (ChildrenOf w) = map (\<lambda>u. Some (root u)) ts"
    using assms(2) by simp
  have run: "seq (dispose_children disp w 0 (arrays s3 (ChildrenOf w)) s3)
            (\<lambda>s4. Ok (updW w (\<lambda>r. r\<lparr>w_node := None\<rparr>) (updA (ChildrenOf w) (\<lambda>a. []) s4))) = Ok s5"
    by (simp only: seq_simps kids3 s4(1) s5_def)
  have w4: "widgets s4 w = widgets s3 w" using s4(4) wk by blast
  have dkids: "disposed_node s5 v" if "v \<in> set ?kids" for v
  proof -
    have "v \<noteq> w" using that wk by auto
    then have "disposed_node s5 v = disposed_node s4 v"
      by (intro disposed_node_cong) (simp_all add: s5_def)
    then show ?thesis using s4(3) that by blast
  qed
  have fr: "widgets s5 v = widgets s3 v \<and> arrays s5 (ChildrenOf v) = arrays s3 (ChildrenOf v)"
    if "v \<notin> set (nodes (Node w ts))" for v
  proof -
    have v: "v \<noteq> w" "v \<notin> set ?kids" using that by auto
    then show ?thesis using s4(4) by (simp add: s5_def)
  qed
  have "emitted s5 = emitted s3 @ ?kids" using s4(2) by (simp add: s5_def)
  moreover have "widgets s5 w = (widgets s3 w)\<lparr>w_node := None\<rparr>" "arrays s5 (ChildrenOf w) = []"
    using w4 by (simp_all add: s5_def)
  ultimately show ?thesis using run dkids fr by blast
qed

lemma dispose_tree:
  "is_tree s t \<Longrightarrow> distinct (nodes t) \<Longrightarrow> live s (nodes t) \<Longrightarrow>
   w_parent (widgets s (root t)) = None \<Longrightarrow> depth t \<le> n \<Longrightarrow> depth t \<le> k \<Longrightarrow>
   \<exists>s'. dispose (sendMessage n) k (root t) s = Ok s' \<and> disposal (nodes t) s s' \<and>
      ((isAttached s (root t) \<longrightarrow>
          (\<forall>nd. w_node (widgets s (root t)) = Some nd \<longrightarrow> parentNode (elems s nd) \<noteq> None)) \<longrightarrow>
       \<not> isAttached s' (root t))"
proof (induction t arbitrary: s k)
  case (Node w ts)
  let ?t = "Node w ts"
  let ?kids = "concat (map nodes ts)"
  obtain j where k: "k = Suc j" and j: "foldr max (map depth ts) 0 \<le> j"
    using Node.prems(6) by (cases k) auto
  obtain nd where nd: "w_node (widgets s w) = Some nd"
    using Node.prems(3) by (auto simp add: live_def)
  define s1 where "s1 = disposed_emit w (setFlag w IsDisposed (clearMessageData w s))"
  define s2 where "s2 = (case w_layout (widgets s1 w) of
                  None \<Rightarrow> s1
                | Some l \<Rightarrow> layout_dispose l (updW w (\<lambda>r. r\<lparr>w_layout := None\<rparr>) s1))"
  define s3 where "s3 = (if isAttached s2 w
       then (case parentNode (elems s2 nd) of None \<Rightarrow> s2 | Some host \<Rightarrow> detached ?t nd s2)
       else s2)"
  have p2: "arrays s2 = arrays s" "emitted s2 = emitted s @ [w]"
    "w_node (widgets s2 v) = w_node (widgets s v)"
    "w_parent (widgets s2 v) = w_parent (widgets s v)"
    "v \<noteq> w \<Longrightarrow> widgets s2 v = widgets s v"
    "isDisposed s2 w" "w_layout (widgets s2 w) = None"
    "isAttached s2 w = isAttached s w" "elems s2 = elems s" for v
    by (auto simp add: s2_def s1_def disposed_emit_def clearMessageData_def layout_dispose_def
        isDisposed_def isAttached_def testFlag_def split: option.splits)
  have tree2: "is_tree s2 ?t"
    using Node.prems(1) is_tree_arrays [OF p2(1), of ?t] by blast
  have step3: "(case w_parent (widgets s2 w) of
                Some p \<Rightarrow>
                  sendMessage n p (ChildMessage ''child-removed'' w)
                    (algo_remove (ChildrenOf p) w (updW w (\<lambda>r. r\<lparr>w_parent := None\<rparr>) s2))
              | None \<Rightarrow> if isAttached s2 w then detach (sendMessage n) w s2 else Ok s2) = Ok s3"
    using detach_run [OF _ tree2 _ _ Node.prems(5), of w nd] Node.prems(4) nd
    by (simp add: p2 s3_def)
  have p3: "arrays s3 = arrays s" "emitted s3 = emitted s @ [w]"
    "w_node (widgets s3 v) = w_node (widgets s v)"
    "w_parent (widgets s3 v) = w_parent (widgets s v)"
    "v \<notin> set (nodes ?t) \<Longrightarrow> widgets s3 v = widgets s v"
    "isDisposed s3 w" "w_layout (widgets s3 w) = None" for v
    using p2
    by (auto simp add: s3_def detached_props detached_more split: option.splits)
  have att3: "\<not> isAttached s3 w"
    if "isAttached s w \<longrightarrow>
          (\<forall>nd. w_node (widgets s w) = Some nd \<longrightarrow> parentNode (elems s nd) \<noteq> None)"
    using that nd p2(8,9) detached_flags [of w ?t nd s2]
    by (auto simp add: s3_def split: option.splits)
  have tree3: "is_tree s3 ?t"
    using Node.prems(1) is_tree_arrays [OF p3(1), of ?t] by blast
  have live3: "live s3 ?kids"
    using Node.prems(3) by (simp add: live_def p3(3))
  have spec: "\<exists>s'. dispose (sendMessage n) j (root u) s0 = Ok s' \<and> disposal (nodes u) s0 s'"
    if "u \<in> set ts" "is_tree s0 u" "live s0 (nodes u)" "w_parent (widgets s0 (root u)) = None"
    for u s0
  proof -
    have "distinct (nodes u)" using Node.prems(2) that(1) by (auto simp add: distinct_concat_iff)
    moreover have "depth u \<le> foldr max (map depth ts) 0" using that(1) by (rule height_child)
    then have "depth u \<le> n" "depth u \<le> j" using Node.prems(5) j by auto
    ultimately show ?thesis using Node.IH [OF that(1,2) _ that(3,4), of j] by blast
  qed
  obtain s5 where s5: "seq (dispose_children (dispose (sendMessage n) j) w 0 (arrays s3 (ChildrenOf w)) s3)
            (\<lambda>s4. Ok (updW w (\<lambda>r. r\<lparr>w_node := None\<rparr>) (updA (ChildrenOf w) (\<lambda>a. []) s4))) = Ok s5"
     "emitted s5 = emitted s3 @ ?kids"
     "\<forall>v \<in> set ?kids. disposed_node s5 v"
     "widgets s5 w = (widgets s3 w)\<lparr>w_node := None\<rparr>" "arrays s5 (ChildrenOf w) = []"
     "\<forall>v. v \<notin> set (nodes ?t) \<longrightarrow>
        widgets s5 v = widgets s3 v \<and> arrays s5 (ChildrenOf v) = arrays s3 (ChildrenOf v)"
    using dispose_rest [of ts "dispose (sendMessage n) j" s3 w, OF spec tree3 Node.prems(2) live3]
    by blast
  have unf: "dispose (sendMessage n) k w s =
      seq (case w_parent (widgets s2 w) of
                Some p \<Rightarrow>
                  sendMessage n p (ChildMessage ''child-removed'' w)
                    (algo_remove (ChildrenOf p) w (updW w (\<lambda>r. r\<lparr>w_parent := None\<rparr>) s2))
              | None \<Rightarrow> if isAttached s2 w then detach (sendMessage n) w s2 else Ok s2)
          (\<lambda>s3.
         seq (dispose_children (dispose (sendMessage n) j) w 0 (arrays s3 (ChildrenOf w)) s3)
          (\<lambda>s4. Ok (updW w (\<lambda>r. r\<lparr>w_node := None\<rparr>) (updA (ChildrenOf w) (\<lambda>a. []) s4))))"
    unfolding k s2_def s1_def by (simp only: dispose.simps Let_def)
  have run: "dispose (sendMessage n) k w s = Ok s5"
    by (simp only: unf step3 seq_simps s5(1))
  have em: "emitted s5 = emitted s @ nodes ?t"
    using s5(2) p3(2) by simp
  have dw: "disposed_node s5 w"
    using p3(4) [of w] p3(6,7) s5(4,5) Node.prems(4)
    by (simp add: disposed_node_def isDisposed_def testFlag_def)
  have fr: "widgets s5 v = widgets s v \<and> arrays s5 (ChildrenOf v) = arrays s (ChildrenOf v)"
    if "v \<notin> set (nodes ?t)" for v
    using s5(6) p3(5) [of v] that by (simp add: p3(1))
  have "disposal (nodes ?t) s s5"
    unfolding disposal_def using em dw s5(3) fr by auto
  moreover have "\<not> isAttached s5 w"
    if "isAttached s w \<longrightarrow>
          (\<forall>nd. w_node (widgets s w) = Some nd \<longrightarrow> parentNode (elems s nd) \<noteq> None)"
    using att3 [OF that] s5(4) by (simp add: isAttached_def testFlag_def)
  ultimately show ?case using run by auto
qed

lemma dispose_again:
  assumes "disposed_node s w" and "\<not> isAttached s w"
  shows "\<exists>s'. dispose send (Suc k) w s = Ok s' \<and> emitted s' = emitted s @ [w] \<and>
     widgets s' = widgets s \<and> arrays s' = arrays s \<and> layouts s' = layouts s \<and>
     elems s' = elems s \<and> delivered s' = delivered s"
proof -
  have "(widgets s w)\<lparr>w_flags := insert IsDisposed (w_flags (widgets s w)), w_node := None\<rparr> = widgets s w"
    using assms(1) by (simp add: disposed_node_def isDisposed_def testFlag_def insert_absorb)
  then show ?thesis
    using assms
    by (simp add: disposed_node_def Let_def disposed_emit_def clearMessageData_def
        isAttached_def isDisposed_def testFlag_def insert_absorb fun_upd_idem_iff updA_def updW_def setFlag_def)
qed

lemma tests_other_stores [simp]:
  "isHidden (updE e f s) = isHidden s" "isDisposed (updE e f s) = isDisposed s"
  "isAttached (updE e f s) = isAttached s" "isVisible (updE e f s) = isVisible s"
  "isHidden (updA a g s) = isHidden s" "isDisposed (updA a g s) = isDisposed s"
  "isAttached (updA a g s) = isAttached s" "isVisible (updA a g s) = isVisible s"
  "isHidden (updL l h s) = isHidden s" "isDisposed (updL l h s) = isDisposed s"
  "isAttached (updL l h s) = isAttached s" "isVisible (updL l h s) = isVisible s"
  by (simp_all add: fun_eq_iff isHidden_def isDisposed_def isAttached_def isVisible_def testFlag_def)

lemma dispose_subtree:
  assumes "is_tree s t" and "distinct (nodes t)" and "live s (nodes t)"
    and "w_parent (widgets s (root t)) = Some p" and "p \<notin> set (nodes t)"
    and "w_node (widgets s p) = Some np" and "w_node (widgets s (root t)) = Some nd"
    and "parentNode (elems s nd) = Some np" and "depth t < n" and "depth t \<le> k"
  shows "\<exists>s'. dispose (sendMessage n) k (root t) s = Ok s' \<and>
     emitted s' = emitted s @ nodes t \<and> (\<forall>v \<in> set (nodes t). disposed_node s' v) \<and>
     (\<forall>v. v \<notin> set (nodes t) \<longrightarrow>
        widgets s' v = widgets s v \<and>
        arrays s' (ChildrenOf v) =
          (if v = p then remove1 (Some (root t)) (arrays s (ChildrenOf p))
           else arrays s (ChildrenOf v)))"
proof (cases t)
  case (Node w ts)
  let ?kids = "concat (map nodes ts)"
  let ?CR = "ChildMessage ''child-removed'' w"
  have rt: "root t = w" using Node by simp
  note a = assms [unfolded rt]
  obtain j where k: "k = Suc j" and j: "foldr max (map depth ts) 0 \<le> j"
    using a(10) Node by (cases k) auto
  obtain m where n: "n = Suc m" and m: "depth t \<le> m"
    using a(9) by (cases n) auto
  have wp: "w \<noteq> p" using a(5) Node by auto
  define s1 where "s1 = disposed_emit w (setFlag w IsDisposed (clearMessageData w s))"
  define s2 where "s2 = (case w_layout (widgets s1 w) of
                  None \<Rightarrow> s1
                | Some l \<Rightarrow> layout_dispose l (updW w (\<lambda>r. r\<lparr>w_layout := None\<rparr>) s1))"
  define s2' where "s2' = algo_remove (ChildrenOf p) w (updW w (\<lambda>r. r\<lparr>w_parent := None\<rparr>) s2)"
  define s2'' where "s2'' = s2'\<lparr>delivered := delivered s2' @ [(p, ?CR)]\<rparr>"
  define s3 where "s3 = (if isAttached s2' p then detached t nd s2''
                         else updE nd (\<lambda>e. e\<lparr>parentNode := None\<rparr>) s2'')"
  have p2: "arrays s2 = arrays s" "emitted s2 = emitted s @ [w]"
    "w_node (widgets s2 v) = w_node (widgets s v)"
    "w_parent (widgets s2 v) = w_parent (widgets s v)"
    "v \<noteq> w \<Longrightarrow> widgets s2 v = widgets s v"
    "isDisposed s2 w" "w_layout (widgets s2 w) = None" "elems s2 = elems s" for v
    by (auto simp add: s2_def s1_def disposed_emit_def clearMessageData_def layout_dispose_def
        isDisposed_def isAttached_def testFlag_def split: option.splits)
  have q2: "arrays s2' (ChildrenOf v) =
       (if v = p then remove1 (Some w) (arrays s (ChildrenOf p)) else arrays s (ChildrenOf v))"
    "emitted s2' = emitted s @ [w]"
    "w_node (widgets s2' v) = w_node (widgets s v)"
    "w_parent (widgets s2' w) = None"
    "v \<noteq> w \<Longrightarrow> widgets s2' v = widgets s v"
    "isDisposed s2' w" "w_layout (widgets s2' w) = None" "elems s2' = elems s" for v
    using p2
    by (auto simp add: s2'_def algo_remove_def isDisposed_def testFlag_def)
  have tree2: "is_tree s2' t"
    using a(1,5) is_tree_arrays [OF p2(1), of t] by (simp add: s2'_def algo_remove_def)
  have step3: "sendMessage n p ?CR s2' = Ok s3"
    unfolding n s3_def s2''_def
    by (rule sendMessage_child_removed [OF tree2 rt m]) (simp_all add: q2 a)
  have p3: "arrays s3 = arrays s2'" "emitted s3 = emitted s @ [w]"
    "w_node (widgets s3 v) = w_node (widgets s v)"
    "w_parent (widgets s3 w) = None"
    "v \<notin> set (nodes t) \<Longrightarrow> widgets s3 v = widgets s v"
    "isDisposed s3 w" "w_layout (widgets s3 w) = None" for v
    using q2 Node
    by (auto simp add: s3_def s2''_def detached_props detached_more)
  have tree3: "is_tree s3 (Node w ts)"
    using tree2 is_tree_arrays [OF p3(1), of t] Node by blast
  have live3: "live s3 ?kids"
    using a(3) Node by (simp add: live_def p3(3))
  have spec: "\<exists>s'. dispose (sendMessage n) j (root u) s0 = Ok s' \<and> disposal (nodes u) s0 s'"
    if "u \<in> set ts" "is_tree s0 u" "live s0 (nodes u)" "w_parent (widgets s0 (root u)) = None"
    for u s0
  proof -
    have "distinct (nodes u)" using a(2) Node that(1) by (auto simp add: distinct_concat_iff)
    moreover have "depth u \<le> foldr max (map depth ts) 0" using that(1) by (rule height_child)
    then have "depth u \<le> n" "depth u \<le> j" using a(9) j Node by auto
    ultimately show ?thesis using dispose_tree [OF that(2) _ that(3,4), of n j] by blast
  qed
  have dist: "distinct (nodes (Node w ts))" using a(2) Node by simp
  obtain s5 where s5: "seq (dispose_children (dispose (sendMessage n) j) w 0 (arrays s3 (ChildrenOf w)) s3)
            (\<lambda>s4. Ok (updW w (\<lambda>r. r\<lparr>w_node := None\<rparr>) (updA (ChildrenOf w) (\<lambda>a. []) s4))) = Ok s5"
     "emitted s5 = emitted s3 @ ?kids"
     "\<forall>v \<in> set ?kids. disposed_node s5 v"
     "widgets s5 w = (widgets s3 w)\<lparr>w_node := None\<rparr>" "arrays s5 (ChildrenOf w) = []"
     "\<forall>v. v \<notin> set (nodes (Node w ts)) \<longrightarrow>
        widgets s5 v = widgets s3 v \<and> arrays s5 (ChildrenOf v) = arrays s3 (ChildrenOf v)"
    using dispose_rest [of ts "dispose (sendMessage n) j" s3 w, OF spec tree3 dist live3]
    by blast
  have par2: "w_parent (widgets s2 w) = Some p" using a(4) by (simp add: p2)
  have unf: "dispose (sendMessage n) k w s =
      seq (case w_parent (widgets s2 w) of
                Some p \<Rightarrow>
                  sendMessage n p (ChildMessage ''child-removed'' w)
                    (algo_remove (ChildrenOf p) w (updW w (\<lambda>r. r\<lparr>w_parent := None\<rparr>) s2))
              | None \<Rightarrow> if isAttached s2 w then detach (sendMessage n) w s2 else Ok s2)
          (\<lambda>s3.
         seq (dispose_children (dispose (sendMessage n) j) w 0 (arrays s3 (ChildrenOf w)) s3)
          (\<lambda>s4. Ok (updW w (\<lambda>r. r\<lparr>w_node := None\<rparr>) (updA (ChildrenOf w) (\<lambda>a. []) s4))))"
    unfolding k s2_def s1_def by (simp only: dispose.simps Let_def)
  have run: "dispose (sendMessage n) k w s = Ok s5"
    using step3 s5(1) by (simp add: unf par2 s2'_def [symmetric])
  have em: "emitted s5 = emitted s @ nodes t"
    using s5(2) p3(2) Node by simp
  have dw: "disposed_node s5 w"
    using p3(4,6,7) s5(4,5)
    by (simp add: disposed_node_def isDisposed_def testFlag_def)
  have fr: "widgets s5 v = widgets s v \<and>
      arrays s5 (ChildrenOf v) =
          (if v = p then remove1 (Some w) (arrays s (ChildrenOf p)) else arrays s (ChildrenOf v))"
    if "v \<notin> set (nodes t)" for v
    using s5(6) p3(5) [of v] that Node q2(1) [of v] by (simp add: p3(1))
  show ?thesis
    using run em dw s5(3) fr Node by auto
qed

lemma root_in_forest: "u \<in> set ts \<Longrightarrow> root u \<in> set (concat (map nodes ts))"
  using root_in_nodes [of u] by (auto intro: bexI [of _ u])

lemma forest_remove1_roots:
  "distinct (concat (map nodes ts)) \<Longrightarrow> u \<in> set ts \<Longrightarrow>
   remove1 (Some (root u)) (map (\<lambda>t. Some (root t)) ts) = map (\<lambda>t. Some (root t)) (remove1 u ts)"
proof (induction ts)
  case Nil then show ?case by simp
next
  case (Cons a ts)
  have "root a \<noteq> root u" if "u \<in> set ts"
  proof
    assume "root a = root u"
    moreover have "root a \<in> set (nodes a)" by simp
    moreover have "root u \<in> set (concat (map nodes ts))" using that by (rule root_in_forest)
    ultimately show False using Cons.prems(1) by auto
  qed
  then show ?case using Cons by auto
qed

lemma forest_remove1_nodes:
  "distinct (concat (map nodes ts)) \<Longrightarrow> u \<in> set ts \<Longrightarrow>
   distinct (concat (map nodes (remove1 u ts))) \<and>
   set (concat (map nodes (remove1 u ts))) = set (concat (map nodes ts)) - set (nodes u)"
proof (induction ts)
  case Nil then show ?case by simp
next
  case (Cons a ts)
  show ?case
  proof (cases "a = u")
    case True
    then show ?thesis using Cons.prems by auto
  next
    case False
    then have u: "u \<in> set ts" using Cons.prems by simp
    then have "set (nodes u) \<subseteq> set (concat (map nodes ts))" by auto
    then have "set (nodes a) \<inter> set (nodes u) = {}"
      using Cons.prems(1) by auto
    then show ?thesis using False Cons.IH [OF _ u] Cons.prems(1) by auto
  qed
qed

lemma forest_remove1_depth:
  "foldr max (map depth (remove1 u ts)) 0 \<le> foldr max (map depth ts) 0"
  by (induction ts) auto

lemma dispose_after_child:
  assumes "is_tree s (Node r ts)" and "distinct (nodes (Node r ts))"
    and "live s (nodes (Node r ts))" and "w_parent (widgets s r) = None"
    and "u \<in> set ts" and "w_parent (widgets s (root u)) = Some r"
    and "w_node (widgets s r) = Some nr" and "w_node (widgets s (root u)) = Some nu"
    and "parentNode (elems s nu) = Some nr"
    and "depth (Node r ts) \<le> n" and "depth (Node r ts) \<le> k"
  shows "\<exists>s1 s2. dispose (sendMessage n) k (root u) s = Ok s1 \<and>
     dispose (sendMessage n) k r s1 = Ok s2 \<and>
     emitted s2 = emitted s @ nodes u @ nodes (Node r (remove1 u ts)) \<and>
     (\<forall>v \<in> set (nodes (Node r ts)). disposed_node s2 v) \<and>
     distinct (nodes u @ nodes (Node r (remove1 u ts))) \<and>
     set (nodes u @ nodes (Node r (remove1 u ts))) = set (nodes (Node r ts))"
proof -
  let ?ts' = "remove1 u ts"
  let ?t' = "Node r ?ts'"
  have dk: "distinct (concat (map nodes ts))" and rk: "r \<notin> set (concat (map nodes ts))"
    using assms(2) by auto
  have usub: "set (nodes u) \<subseteq> set (concat (map nodes ts))"
    using assms(5) by auto
  have ru: "r \<notin> set (nodes u)" using rk usub by auto
  have du: "distinct (nodes u)" using dk assms(5) by (auto simp add: distinct_concat_iff)
  have depth_u: "depth u \<le> foldr max (map depth ts) 0"
    using assms(5) by (rule height_child)
  have tree_u: "is_tree s u" and live_u: "live s (nodes u)"
    using assms(1,3,5) usub by (auto simp add: live_def)
  obtain s1 where s1: "dispose (sendMessage n) k (root u) s = Ok s1"
     "emitted s1 = emitted s @ nodes u" "\<forall>v \<in> set (nodes u). disposed_node s1 v"
     "\<forall>v. v \<notin> set (nodes u) \<longrightarrow>
        widgets s1 v = widgets s v \<and>
        arrays s1 (ChildrenOf v) =
          (if v = r then remove1 (Some (root u)) (arrays s (ChildrenOf r))
           else arrays s (ChildrenOf v))"
    using dispose_subtree [OF tree_u du live_u assms(6) ru assms(7,8,9), of n k]
      depth_u assms(10,11)
    by auto
  have rem: "distinct (concat (map nodes ?ts'))"
    "set (concat (map nodes ?ts')) = set (concat (map nodes ts)) - set (nodes u)"
    using forest_remove1_nodes [OF dk assms(5)] by auto
  have out: "v \<notin> set (nodes u)" if "v \<in> set (nodes ?t')" for v
    using that rem(2) ru by auto
  have kids1: "arrays s1 (ChildrenOf r) = map (\<lambda>t. Some (root t)) ?ts'"
    using s1(4) ru assms(1) forest_remove1_roots [OF dk assms(5)] by simp
  have sub': "set ?ts' \<subseteq> set ts" by (rule set_remove1_subset)
  have tree1: "is_tree s1 ?t'"
  proof -
    have "is_tree s1 u'" if "u' \<in> set ?ts'" for u'
    proof -
      have mem: "set (nodes u') \<subseteq> set (concat (map nodes ?ts'))" using that by auto
      have "v \<notin> set (nodes u) \<and> v \<noteq> r" if "v \<in> set (nodes u')" for v
        using that mem rem(2) rk by auto
      then have "\<forall>v \<in> set (nodes u'). arrays s1 (ChildrenOf v) = arrays s (ChildrenOf v)"
        using s1(4) by simp
      then have "is_tree s1 u' = is_tree s u'" by (rule is_tree_cong)
      then show ?thesis using assms(1) sub' that by auto
    qed
    then show ?thesis using kids1 by simp
  qed
  have dist1: "distinct (nodes ?t')"
    using rem rk by auto
  have live1: "live s1 (nodes ?t')"
    unfolding live_def
  proof
    fix v assume v: "v \<in> set (nodes ?t')"
    then have "widgets s1 v = widgets s v" using s1(4) out by blast
    moreover have "v \<in> set (nodes (Node r ts))" using v rem(2) by auto
    ultimately show "w_node (widgets s1 v) \<noteq> None"
      using assms(3) unfolding live_def by metis
  qed
  have par1: "w_parent (widgets s1 (root ?t')) = None"
    using s1(4) ru assms(4) by simp
  have depth1: "depth ?t' \<le> n" "depth ?t' \<le> k"
    using forest_remove1_depth [of u ts] assms(10,11) by auto
  obtain s2 where s2: "dispose (sendMessage n) k (root ?t') s1 = Ok s2" "disposal (nodes ?t') s1 s2"
    using dispose_tree [OF tree1 dist1 live1 par1 depth1] by blast
  have s2d: "\<forall>v \<in> set (nodes ?t'). disposed_node s2 v"
    and s2f: "\<And>v. v \<notin> set (nodes ?t') \<Longrightarrow>
       widgets s2 v = widgets s1 v \<and> arrays s2 (ChildrenOf v) = arrays s1 (ChildrenOf v)"
    and s2e: "emitted s2 = emitted s1 @ nodes ?t'"
    using s2(2) unfolding disposal_def by blast+
  have em: "emitted s2 = emitted s @ nodes u @ nodes ?t'"
    using s2e s1(2) by simp
  have all: "disposed_node s2 v" if "v \<in> set (nodes (Node r ts))" for v
  proof (cases "v \<in> set (nodes ?t')")
    case True
    then show ?thesis using s2d by blast
  next
    case False
    then have v: "v \<in> set (nodes u)" using that rem(2) by auto
    have "disposed_node s2 v = disposed_node s1 v"
      by (rule disposed_node_cong) (use s2f [OF False] in blast)+
    then show ?thesis using s1(3) v by blast
  qed
  have d: "distinct (nodes u @ nodes ?t')"
    using du dist1 out by auto
  have e: "set (nodes u @ nodes ?t') = set (nodes (Node r ts))"
    using rem(2) usub by auto
  show ?thesis using s1(1) s2(1) em all d e by auto
qed

lemma attached_emitted:
  "emitted (attached t na nc s) = emitted s"
  using fan_fields [of "Message ''after-attach''" t
      "updE na (\<lambda>e. e\<lparr>parentNode := Some nc\<rparr>) (fan (Message ''before-attach'') t s)"]
    fan_fields [of "Message ''before-attach''" t s]
  by (simp add: attached_def)

text \<open>
  Claim C2. Let the widgets below \<open>root t\<close> form the tree \<open>t\<close>: each node's \<open>_children\<close>
  array lists the roots of its subtrees, no widget occurs twice, none has been disposed of,
  and \<open>root t\<close> has no parent. With fuel of at least the depth of the tree for the dispatcher
  and for the recursion, \<open>dispose\<close> of the root returns, and

  \<^item> \<open>disposed.emit\<close> has run for exactly the nodes of the tree, once each, in preorder;
  \<^item> every node of the tree has the \<open>IsDisposed\<close> flag, a null \<open>_node\<close>, a null \<open>_layout\<close>,
    an empty \<open>_children\<close> array and a null \<open>_parent\<close>;
  \<^item> every widget outside the tree, and its \<open>_children\<close> array, is as before;
  \<^item> when the root, if it carried \<open>IsAttached\<close>, had its node under a DOM parent, a second
    \<open>dispose\<close> of the root returns too and leaves all widgets, arrays, layouts and DOM
    nodes and the log of delivered messages as they are: it reaches no descendant, the
    \<open>_children\<close> array being empty.

  On a tree already torn down in part, the subtree \<open>u\<close> of the root \<open>r\<close> having been disposed
  of first, \<open>dispose\<close> of \<open>r\<close> returns and \<open>disposed.emit\<close> has run for the nodes of \<open>u\<close> and
  then for the remaining nodes, once for each node of the whole tree, all of which are left
  disposed: \<open>u\<close> was removed from the \<open>_children\<close> array of \<open>r\<close> by its own disposal.
\<close>

theorem dispose_root_disposes_tree:
  "(is_tree s t \<and> distinct (nodes t) \<and> live s (nodes t) \<and>
    w_parent (widgets s (root t)) = None \<and> depth t \<le> n \<and> depth t \<le> k \<longrightarrow>
    (\<exists>s'. dispose (sendMessage n) k (root t) s = Ok s' \<and>
       emitted s' = emitted s @ nodes t \<and>
       (\<forall>v \<in> set (nodes t).
          isDisposed s' v \<and> w_node (widgets s' v) = None \<and> w_layout (widgets s' v) = None \<and>
          arrays s' (ChildrenOf v) = [] \<and> w_parent (widgets s' v) = None) \<and>
       (\<forall>v. v \<notin> set (nodes t) \<longrightarrow>
          widgets s' v = widgets s v \<and> arrays s' (ChildrenOf v) = arrays s (ChildrenOf v)) \<and>
       ((isAttached s (root t) \<longrightarrow>
           (\<forall>nd. w_node (widgets s (root t)) = Some nd \<longrightarrow> parentNode (elems s nd) \<noteq> None)) \<longrightarrow>
        (\<exists>s''. dispose (sendMessage n) k (root t) s' = Ok s'' \<and>
           emitted s'' = emitted s' @ [root t] \<and> widgets s'' = widgets s' \<and>
           arrays s'' = arrays s' \<and> layouts s'' = layouts s' \<and> elems s'' = elems s' \<and>
           delivered s'' = delivered s')))) \<and>
   (is_tree s (Node r ts) \<and> distinct (nodes (Node r ts)) \<and> live s (nodes (Node r ts)) \<and>
    w_parent (widgets s r) = None \<and> u \<in> set ts \<and> w_parent (widgets s (root u)) = Some r \<and>
    w_node (widgets s r) = Some nr \<and> w_node (widgets s (root u)) = Some nu \<and>
    parentNode (elems s nu) = Some nr \<and> depth (Node r ts) \<le> n \<and> depth (Node r ts) \<le> k \<longrightarrow>
    (\<exists>s1 s2. dispose (sendMessage n) k (root u) s = Ok s1 \<and>
       dispose (sendMessage n) k r s1 = Ok s2 \<and>
       emitted s2 = emitted s @ nodes u @ nodes (Node r (remove1 u ts)) \<and>
       (\<forall>v \<in> set (nodes (Node r ts)). disposed_node s2 v) \<and>
       distinct (nodes u @ nodes (Node r (remove1 u ts))) \<and>
       set (nodes u @ nodes (Node r (remove1 u ts))) = set (nodes (Node r ts))))"
proof (intro conjI impI)
  assume h: "is_tree s t \<and> distinct (nodes t) \<and> live s (nodes t) \<and>
    w_parent (widgets s (root t)) = None \<and> depth t \<le> n \<and> depth t \<le> k"
  then obtain s' where s': "dispose (sendMessage n) k (root t) s = Ok s'"
     "disposal (nodes t) s s'"
     "(isAttached s (root t) \<longrightarrow>
          (\<forall>nd. w_node (widgets s (root t)) = Some nd \<longrightarrow> parentNode (elems s nd) \<noteq> None)) \<longrightarrow>
       \<not> isAttached s' (root t)"
    using dispose_tree [of s t n k] by blast
  have e: "emitted s' = emitted s @ nodes t"
    and d: "\<forall>v \<in> set (nodes t). disposed_node s' v"
    and f: "\<forall>v. v \<notin> set (nodes t) \<longrightarrow>
          widgets s' v = widgets s v \<and> arrays s' (ChildrenOf v) = arrays s (ChildrenOf v)"
    using s'(2) unfolding disposal_def by blast+
  have d': "\<forall>v \<in> set (nodes t).
          isDisposed s' v \<and> w_node (widgets s' v) = None \<and> w_layout (widgets s' v) = None \<and>
          arrays s' (ChildrenOf v) = [] \<and> w_parent (widgets s' v) = None"
    using d unfolding disposed_node_def by blast
  obtain j where k: "k = Suc j" using h depth_pos [of t] by (cases k) auto
  have again: "\<exists>s''. dispose (sendMessage n) k (root t) s' = Ok s'' \<and>
           emitted s'' = emitted s' @ [root t] \<and> widgets s'' = widgets s' \<and>
           arrays s'' = arrays s' \<and> layouts s'' = layouts s' \<and> elems s'' = elems s' \<and>
           delivered s'' = delivered s'"
    if "isAttached s (root t) \<longrightarrow>
           (\<forall>nd. w_node (widgets s (root t)) = Some nd \<longrightarrow> parentNode (elems s nd) \<noteq> None)"
    unfolding k
    by (rule dispose_again) (use d s'(3) that in auto)
  show "\<exists>s'. dispose (sendMessage n) k (root t) s = Ok s' \<and>
       emitted s' = emitted s @ nodes t \<and>
       (\<forall>v \<in> set (nodes t).
          isDisposed s' v \<and> w_node (widgets s' v) = None \<and> w_layout (widgets s' v) = None \<and>
          arrays s' (ChildrenOf v) = [] \<and> w_parent (widgets s' v) = None) \<and>
       (\<forall>v. v \<notin> set (nodes t) \<longrightarrow>
          widgets s' v = widgets s v \<and> arrays s' (ChildrenOf v) = arrays s (ChildrenOf v)) \<and>
       ((isAttached s (root t) \<longrightarrow>
           (\<forall>nd. w_node (widgets s (root t)) = Some nd \<longrightarrow> parentNode (elems s nd) \<noteq> None)) \<longrightarrow>
        (\<exists>s''. dispose (sendMessage n) k (root t) s' = Ok s'' \<and>
           emitted s'' = emitted s' @ [root t] \<and> widgets s'' = widgets s' \<and>
           arrays s'' = arrays s' \<and> layouts s'' = layouts s' \<and> elems s'' = elems s' \<and>
           delivered s'' = delivered s'))"
    using s'(1) e d' f again by blast
next
  assume "is_tree s (Node r ts) \<and> distinct (nodes (Node r ts)) \<and> live s (nodes (Node r ts)) \<and>
    w_parent (widgets s r) = None \<and> u \<in> set ts \<and> w_parent (widgets s (root u)) = Some r \<and>
    w_node (widgets s r) = Some nr \<and> w_node (widgets s (root u)) = Some nu \<and>
    parentNode (elems s nu) = Some nr \<and> depth (Node r ts) \<le> n \<and> depth (Node r ts) \<le> k"
  then show "\<exists>s1 s2. dispose (sendMessage n) k (root u) s = Ok s1 \<and>
       dispose (sendMessage n) k r s1 = Ok s2 \<and>
       emitted s2 = emitted s @ nodes u @ nodes (Node r (remove1 u ts)) \<and>
       (\<forall>v \<in> set (nodes (Node r ts)). disposed_node s2 v) \<and>
       distinct (nodes u @ nodes (Node r (remove1 u ts))) \<and>
       set (nodes u @ nodes (Node r (remove1 u ts))) = set (nodes (Node r ts))"
    using dispose_after_child [of s r ts u nr nu n k] by blast
qed

theorem dispose_root_disposes_tree_witness:
  "is_tree ex_attached_family (Node 0 [Node 1 [], Node 2 []]) \<and>
   distinct (nodes (Node 0 [Node 1 [], Node 2 []])) \<and>
   live ex_attached_family (nodes (Node 0 [Node 1 [], Node 2 []])) \<and>
   w_parent (widgets ex_attached_family 0) = None \<and>
   isAttached ex_attached_family 0 \<and>
   parentNode (elems ex_attached_family (WidgetNode 0)) = Some (HostElement 0) \<and>
   (\<exists>s'. dispose (sendMessage 2) 2 0 ex_attached_family = Ok s' \<and>
      emitted s' = [0, 1, 2] \<and> w_node (widgets s' 1) = None \<and>
      w_parent (widgets s' 2) = None \<and> arrays s' (ChildrenOf 0) = [] \<and> isDisposed s' 0 \<and>
      (\<exists>s''. dispose (sendMessage 2) 2 0 s' = Ok s'' \<and> emitted s'' = [0, 1, 2, 0] \<and>
          widgets s'' = widgets s')) \<and>
   is_tree ex_family (Node 0 [Node 1 [], Node 2 []]) \<and>
   w_parent (widgets ex_family 1) = Some 0 \<and>
   (\<exists>s1 s2. dispose (sendMessage 2) 2 1 ex_family = Ok s1 \<and>
      dispose (sendMessage 2) 2 0 s1 = Ok s2 \<and> emitted s2 = [1, 0, 2] \<and>
      disposed_node s2 1)"
proof -
  let ?t = "Node 0 [Node 1 [], Node 2 []]"
  have fam: "is_tree ex_family ?t" "live ex_family (nodes ?t)" "w_parent (widgets ex_family 0) = None"
    "emitted ex_family = []" "w_parent (widgets ex_family 1) = Some 0"
    "w_node (widgets ex_family 0) = Some (WidgetNode 0)"
    "w_node (widgets ex_family 1) = Some (WidgetNode 1)"
    "parentNode (elems ex_family (WidgetNode 1)) = Some (WidgetNode 0)"
    by (simp_all add: ex_family_def initial_def new_Widget_def live_def)
  have arr: "arrays ex_attached_family = arrays ex_family"
    by (simp add: ex_attached_family_def attached_props)
  have att1: "is_tree ex_attached_family ?t"
    using fam(1) is_tree_arrays [OF arr, of ?t] by blast
  have att2: "live ex_attached_family (nodes ?t)"
    using fam(2) by (simp add: live_def ex_attached_family_def attached_props)
  have att3: "w_parent (widgets ex_attached_family 0) = None"
    "w_node (widgets ex_attached_family 0) = Some (WidgetNode 0)"
    using fam by (simp_all add: ex_attached_family_def attached_props)
  have att4: "emitted ex_attached_family = []"
    using fam(4) by (simp add: ex_attached_family_def attached_emitted)
  have att5: "parentNode (elems ex_attached_family (WidgetNode 0)) = Some (HostElement 0)"
    by (simp add: ex_attached_family_def attached_elems)
  note att = att1 att2 att3 att4 att5
  have d: "distinct (nodes ?t)" "depth ?t \<le> 2" "root ?t = 0" "Node 1 [] \<in> set [Node 1 [], Node 2 []]"
    "nodes ?t = [0, 1, 2]" "root (Node 1 []) = 1" "nodes (Node 1 []) = [1]"
    "nodes (Node 0 (remove1 (Node 1 []) [Node 1 [], Node 2 []])) = [0, 2]"
    by simp_all
  have h1: "is_tree ex_attached_family ?t \<and> distinct (nodes ?t) \<and>
      live ex_attached_family (nodes ?t) \<and> w_parent (widgets ex_attached_family (root ?t)) = None \<and>
      depth ?t \<le> 2 \<and> depth ?t \<le> 2"
    using att d by (simp del: is_tree.simps)
  have h1': "isAttached ex_attached_family (root ?t) \<longrightarrow>
      (\<forall>nd. w_node (widgets ex_attached_family (root ?t)) = Some nd \<longrightarrow>
         parentNode (elems ex_attached_family nd) \<noteq> None)"
    using att by simp
  obtain s' where s': "dispose (sendMessage 2) 2 (root ?t) ex_attached_family = Ok s'"
      "emitted s' = emitted ex_attached_family @ nodes ?t"
      "\<forall>v \<in> set (nodes ?t).
          isDisposed s' v \<and> w_node (widgets s' v) = None \<and> w_layout (widgets s' v) = None \<and>
          arrays s' (ChildrenOf v) = [] \<and> w_parent (widgets s' v) = None"
      "\<exists>s''. dispose (sendMessage 2) 2 (root ?t) s' = Ok s'' \<and>
           emitted s'' = emitted s' @ [root ?t] \<and> widgets s'' = widgets s' \<and>
           arrays s'' = arrays s' \<and> layouts s'' = layouts s' \<and> elems s'' = elems s' \<and>
           delivered s'' = delivered s'"
    using dispose_root_disposes_tree [of ex_attached_family ?t 2 2, THEN conjunct1, THEN mp, OF h1] h1'
    by blast
  have 1: "\<exists>s'. dispose (sendMessage 2) 2 0 ex_attached_family = Ok s' \<and>
      emitted s' = [0, 1, 2] \<and> w_node (widgets s' 1) = None \<and>
      w_parent (widgets s' 2) = None \<and> arrays s' (ChildrenOf 0) = [] \<and> isDisposed s' 0 \<and>
      (\<exists>s''. dispose (sendMessage 2) 2 0 s' = Ok s'' \<and> emitted s'' = [0, 1, 2, 0] \<and>
          widgets s'' = widgets s')"
    using s' att4 by auto
  let ?ts = "[Node 1 [], Node 2 []]"
  have h2: "is_tree ex_family (Node 0 ?ts) \<and> distinct (nodes (Node 0 ?ts)) \<and>
    live ex_family (nodes (Node 0 ?ts)) \<and>
    w_parent (widgets ex_family 0) = None \<and> Node 1 [] \<in> set ?ts \<and>
    w_parent (widgets ex_family (root (Node 1 []))) = Some 0 \<and>
    w_node (widgets ex_family 0) = Some (WidgetNode 0) \<and>
    w_node (widgets ex_family (root (Node 1 []))) = Some (WidgetNode 1) \<and>
    parentNode (elems ex_family (WidgetNode 1)) = Some (WidgetNode 0) \<and>
    depth (Node 0 ?ts) \<le> 2 \<and> depth (Node 0 ?ts) \<le> 2"
    using fam d by (simp del: is_tree.simps)
  obtain s1 s2 where s12: "dispose (sendMessage 2) 2 (root (Node 1 [])) ex_family = Ok s1"
       "dispose (sendMessage 2) 2 0 s1 = Ok s2"
       "emitted s2 = emitted ex_family @ nodes (Node 1 []) @ nodes (Node 0 (remove1 (Node 1 []) ?ts))"
       "\<forall>v \<in> set (nodes (Node 0 ?ts)). disposed_node s2 v"
    using dispose_root_disposes_tree [of ex_family _ 2 2 0 ?ts "Node 1 []" "WidgetNode 0" "WidgetNode 1",
        THEN conjunct2, THEN mp, OF h2]
    by blast
  have 2: "\<exists>s1 s2. dispose (sendMessage 2) 2 1 ex_family = Ok s1 \<and>
      dispose (sendMessage 2) 2 0 s1 = Ok s2 \<and> emitted s2 = [1, 0, 2] \<and>
      disposed_node s2 1"
    using s12 fam(4) by auto
  show ?thesis
    using fam att d 1 2 ex_attached_family_facts(7) by (simp del: is_tree.simps)
qed

section \<open>Geometry requests\<close>

lemma ex_hidden_chain_reached:
  "seq (hide (sendMessage 1) 1 1 (initial css0)) (\<lambda>s.
   seq (set_parent (sendMessage 1) 1 (Some 0) s) (set_parent (sendMessage 1) 2 (Some 1)))
     = Ok ex_hidden_chain"
  by (simp add: set_parent_def hide_def ex_hidden_chain_def initial_def new_Widget_def new_element_def
      processMessage_def processMessage_ignored onChildAdded_def isAttached_def isHidden_def testFlag_def node_appendChild_def
       appendChild_def updW_def updE_def updA_def Let_def fun_upd_twist addClass_def WIDGET_CLASS_def HIDDEN_CLASS_def setFlag_def)

lemma postMessage_fields [simp]:
  "widgets (postMessage h m s) = widgets s"
  "arrays (postMessage h m s) = arrays s"
  "layouts (postMessage h m s) = layouts s"
  "elems (postMessage h m s) = elems s"
  "delivered (postMessage h m s) = delivered s"
  "emitted (postMessage h m s) = emitted s"
  "filters (postMessage h m s) = filters s"
  "isHidden (postMessage h m s) = isHidden s"
  by (simp_all add: postMessage_def isHidden_def testFlag_def fun_eq_iff)

lemma bubble_path_post [simp]:
  "bubble_path (postMessage h m s) w force ps = bubble_path s w force ps"
  by (induction ps arbitrary: w force) (simp_all split: option.split)

lemma updateGeometry_bubble:
  "bubble_path s w force ps \<Longrightarrow> length ps < n \<Longrightarrow>
   updateGeometry n w force s =
     Ok (absorb (last (w # ps)) (ps = [] \<and> force)
           (fold (\<lambda>p. postMessage p (Message ''layout-request'')) ps s))"
proof (induction ps arbitrary: s w force n)
  case Nil
  then obtain k where "n = Suc k" by (cases n) auto
  then show ?case using Nil by (auto simp add: absorb_def split: option.splits)
next
  case (Cons p ps)
  then obtain k where n: "n = Suc k" and k: "length ps < k" by (cases n) auto
  have "updateGeometry k p False (postMessage p (Message ''layout-request'') s) =
     Ok (absorb (last (p # ps)) (ps = [] \<and> False)
           (fold (\<lambda>p. postMessage p (Message ''layout-request'')) ps
              (postMessage p (Message ''layout-request'') s)))"
    using Cons.prems(1) k by (intro Cons.IH) simp_all
  then show ?case using Cons.prems(1) by (auto simp add: n)
qed

lemma hide_forced:
  assumes "\<not> isHidden s w" and "is_tree s t" and "root t = w"
    and "w_node (widgets s w) = Some nd" and "depth t \<le> n"
  shows "\<exists>s1. hide (sendMessage n) k w s = updateGeometry k w True s1 \<and> isHidden s1 w \<and>
     (\<forall>v. w_parent (widgets s1 v) = w_parent (widgets s v) \<and>
          w_layout (widgets s1 v) = w_layout (widgets s v) \<and>
          (v \<noteq> w \<longrightarrow> isHidden s1 v = isHidden s v)) \<and>
     layouts s1 = layouts s \<and> pending s1 = pending s"
proof -
  have n: "0 < n" using assms(5) depth_pos [of t] by simp
  let ?BH = "Message ''before-hide''" and ?AH = "Message ''after-hide''"
  let ?P = "\<lambda>s1. isHidden s1 w \<and>
     (\<forall>v. w_parent (widgets s1 v) = w_parent (widgets s v) \<and>
          w_layout (widgets s1 v) = w_layout (widgets s v) \<and>
          (v \<noteq> w \<longrightarrow> isHidden s1 v = isHidden s v)) \<and>
     layouts s1 = layouts s \<and> pending s1 = pending s"
  define sa where "sa = fan ?BH t s"
  define sb where "sb = setFlag w IsHidden (updE nd (\<lambda>e. e\<lparr>classList :=
        (if HIDDEN_CLASS \<in> set (classList e) then classList e else classList e @ [HIDDEN_CLASS])\<rparr>) sa)"
  define sc where "sc = fan ?AH t sb"
  define sd where "sd = setFlag w IsHidden (updE nd (\<lambda>e. e\<lparr>classList :=
        (if HIDDEN_CLASS \<in> set (classList e) then classList e else classList e @ [HIDDEN_CLASS])\<rparr>) s)"
  have a: "sendMessage n w ?BH s = Ok sa"
    using sendMessage_fan [OF assms(2) _ assms(5), of ?BH] assms(3) by (simp add: sa_def)
  have node_a: "w_node (widgets sa w) = Some nd"
    using fan_widget [of ?BH t s w] assms(4) by (simp add: sa_def)
  have arr_b: "arrays sb = arrays s"
    by (simp add: sb_def sa_def)
  have tree_b: "is_tree sb t"
    using assms(2) is_tree_arrays [OF arr_b] by simp
  have c: "sendMessage n w ?AH sb = Ok sc"
    using sendMessage_fan [OF tree_b _ assms(5), of ?AH] assms(3) by (simp add: sc_def)
  have Pd: "?P sd"
    by (simp add: sd_def isHidden_def testFlag_def)
  have Pb: "?P sb"
    using fan_widget [of ?BH t s] fan_fields [of ?BH t s]
    by (simp add: sb_def sa_def isHidden_def testFlag_def)
  have Pc: "?P sc"
    using fan_widget [of ?AH t sb] fan_fields [of ?AH t sb] Pb
    by (simp add: sc_def)
  have logged: "?P s' \<Longrightarrow> ?P (s'\<lparr>delivered := d\<rparr>)" for s' d
    by simp
  show ?thesis
  proof (cases "isAttached s w \<and> (case w_parent (widgets s w) of None \<Rightarrow> True | Some p \<Rightarrow> isVisible s p)")
    case True
    show ?thesis
    proof (cases "w_parent (widgets s w)")
      case None
      then have "hide (sendMessage n) k w s = updateGeometry k w True sc"
        using True assms(1) a c node_a by (simp add: hide_def addClass_def sb_def Let_def)
      then show ?thesis using Pc by blast
    next
      case (Some p)
      then have "hide (sendMessage n) k w s =
          updateGeometry k w True (sc\<lparr>delivered := delivered sc @ [(p, ChildMessage ''child-hidden'' w)]\<rparr>)"
        using True assms(1) a c node_a n
        by (simp add: hide_def addClass_def sb_def Let_def sendMessage_child_note)
      then show ?thesis using logged [OF Pc] by blast
    qed
  next
    case False
    show ?thesis
    proof (cases "w_parent (widgets s w)")
      case None
      then have "hide (sendMessage n) k w s = updateGeometry k w True sd"
        using False assms(1,4) by (simp add: hide_def addClass_def sd_def Let_def)
      then show ?thesis using Pd by blast
    next
      case (Some p)
      then have "hide (sendMessage n) k w s =
          updateGeometry k w True (sd\<lparr>delivered := delivered sd @ [(p, ChildMessage ''child-hidden'' w)]\<rparr>)"
        using False assms(1,4) n
        by (auto simp add: hide_def addClass_def sd_def Let_def sendMessage_child_note)
      then show ?thesis using logged [OF Pd] by blast
    qed
  qed
qed

text \<open>
  Claim C6, as amended. \<open>updateGeometry(force)\<close> returns without effect when the widget
  has no parent, or is hidden and not forced. Otherwise it invalidates the layout of
  the parent if there is one, and if not it posts a \<open>layout-request\<close> to the parent and
  calls \<open>updateGeometry\<close> on the parent with \<open>force = false\<close>. So the request passes
  the ancestors without layout, each receiving a \<open>layout-request\<close>, until it reaches
  a widget whose parent has a layout (which is invalidated), the root, or a hidden
  ancestor, where it stops. \<open>hide()\<close> on a widget that is not hidden ends with
  \<open>updateGeometry(true)\<close>, called in a state where the widget is hidden and the
  parents, layouts and queues are as before the call.
\<close>

theorem updateGeometry_bubbling:
  "(0 < n \<and> (w_parent (widgets s w) = None \<or> (isHidden s w \<and> \<not> force)) \<longrightarrow>
      updateGeometry n w force s = Ok s) \<and>
   (0 < n \<and> w_parent (widgets s w) = Some p \<and> \<not> (isHidden s w \<and> \<not> force) \<and>
      w_layout (widgets s p) = Some l \<longrightarrow>
      updateGeometry n w force s = Ok (layout_invalidate l s)) \<and>
   (w_parent (widgets s w) = Some p \<and> \<not> (isHidden s w \<and> \<not> force) \<and>
      w_layout (widgets s p) = None \<longrightarrow>
      updateGeometry (Suc n) w force s =
        updateGeometry n p False (postMessage p (Message ''layout-request'') s)) \<and>
   (bubble_path s w force ps \<and> length ps < n \<longrightarrow>
      updateGeometry n w force s =
        Ok (absorb (last (w # ps)) (ps = [] \<and> force)
              (fold (\<lambda>p. postMessage p (Message ''layout-request'')) ps s))) \<and>
   (\<not> isHidden s w \<and> is_tree s t \<and> root t = w \<and> w_node (widgets s w) = Some nd \<and>
      depth t \<le> n \<longrightarrow>
      (\<exists>s1. hide (sendMessage n) k w s = updateGeometry k w True s1 \<and> isHidden s1 w \<and>
         (\<forall>v. w_parent (widgets s1 v) = w_parent (widgets s v) \<and>
              w_layout (widgets s1 v) = w_layout (widgets s v) \<and>
              (v \<noteq> w \<longrightarrow> isHidden s1 v = isHidden s v)) \<and>
         layouts s1 = layouts s \<and> pending s1 = pending s))"
proof (intro conjI impI)
  assume "0 < n \<and> (w_parent (widgets s w) = None \<or> (isHidden s w \<and> \<not> force))"
  then show "updateGeometry n w force s = Ok s"
    by (cases n) (auto split: option.splits)
next
  assume "0 < n \<and> w_parent (widgets s w) = Some p \<and> \<not> (isHidden s w \<and> \<not> force) \<and>
      w_layout (widgets s p) = Some l"
  then show "updateGeometry n w force s = Ok (layout_invalidate l s)"
    by (cases n) auto
next
  assume "w_parent (widgets s w) = Some p \<and> \<not> (isHidden s w \<and> \<not> force) \<and>
      w_layout (widgets s p) = None"
  then show "updateGeometry (Suc n) w force s =
        updateGeometry n p False (postMessage p (Message ''layout-request'') s)"
    by auto
next
  assume "bubble_path s w force ps \<and> length ps < n"
  then show "updateGeometry n w force s =
        Ok (absorb (last (w # ps)) (ps = [] \<and> force)
              (fold (\<lambda>p. postMessage p (Message ''layout-request'')) ps s))"
    using updateGeometry_bubble by blast
next
  assume "\<not> isHidden s w \<and> is_tree s t \<and> root t = w \<and> w_node (widgets s w) = Some nd \<and>
      depth t \<le> n"
  then show "\<exists>s1. hide (sendMessage n) k w s = updateGeometry k w True s1 \<and> isHidden s1 w \<and>
         (\<forall>v. w_parent (widgets s1 v) = w_parent (widgets s v) \<and>
              w_layout (widgets s1 v) = w_layout (widgets s v) \<and>
              (v \<noteq> w \<longrightarrow> isHidden s1 v = isHidden s v)) \<and>
         layouts s1 = layouts s \<and> pending s1 = pending s"
    using hide_forced [of s w t nd n k] by blast
qed

theorem updateGeometry_bubbling_witness:
  "w_parent (widgets ex_family 0) = None \<and>
   updateGeometry 2 0 True ex_family = Ok ex_family \<and>
   w_parent (widgets ex_laid_out 1) = Some 0 \<and> \<not> isHidden ex_laid_out 1 \<and>
   w_layout (widgets ex_laid_out 0) = Some 0 \<and>
   updateGeometry 2 1 False ex_laid_out = Ok (layout_invalidate 0 ex_laid_out) \<and>
   w_layout (widgets ex_family 0) = None \<and>
   bubble_path ex_family 1 False [0] \<and>
   map_result (\<lambda>s. pending s 0) (updateGeometry 2 1 False ex_family) =
     Ok [Message ''layout-request''] \<and>
   is_tree ex_family (Node 1 []) \<and> w_node (widgets ex_family 1) = Some (WidgetNode 1) \<and>
   (\<exists>s1. hide (sendMessage 1) 2 1 ex_family = updateGeometry 2 1 True s1 \<and> isHidden s1 1)"
proof -
  have f: "w_parent (widgets ex_family 0) = None" "w_parent (widgets ex_family 1) = Some 0"
    "\<not> isHidden ex_family 1" "w_layout (widgets ex_family 0) = None"
    "is_tree ex_family (Node 1 [])" "w_node (widgets ex_family 1) = Some (WidgetNode 1)"
    "pending ex_family 0 = []"
    by (simp_all add: ex_family_def initial_def new_Widget_def isHidden_def testFlag_def)
  have g: "w_parent (widgets ex_laid_out 1) = Some 0" "\<not> isHidden ex_laid_out 1"
    "w_layout (widgets ex_laid_out 0) = Some 0"
    by (simp_all add: ex_laid_out_def ex_family_def initial_def new_Widget_def isHidden_def
        testFlag_def layout_set_parent_def installMessageFilter_def)
  have p: "bubble_path ex_family 1 False [0]"
    using f by simp
  have a: "updateGeometry 2 0 True ex_family = Ok ex_family"
    using updateGeometry_bubbling [of 2 ex_family 0 True] f by simp
  have b: "updateGeometry 2 1 False ex_laid_out = Ok (layout_invalidate 0 ex_laid_out)"
    using updateGeometry_bubbling [of 2 ex_laid_out 1 False 0 0] g by simp
  have c: "map_result (\<lambda>s. pending s 0) (updateGeometry 2 1 False ex_family) =
     Ok [Message ''layout-request'']"
    using updateGeometry_bubbling [of 2 ex_family 1 False 0 0 "[0]"] p f
    by (simp add: absorb_def postMessage_def compressMessage_def)
  have d: "\<exists>s1. hide (sendMessage 1) 2 1 ex_family = updateGeometry 2 1 True s1 \<and> isHidden s1 1"
    using updateGeometry_bubbling [of 1 ex_family 1 False 0 0 "[0]" "Node 1 []" "WidgetNode 1" 2] f
    by auto
  show ?thesis using f g p a b c d by simp
qed

text \<open>
  Claim C6 as stated fails at a hidden ancestor: in the chain 0, 1, 2 with widget 1
  hidden and no layout anywhere, a request from widget 2, forced or not, is posted to
  widget 1 and stops there; the root 0 is not reached.
\<close>

theorem updateGeometry_hidden_ancestor_counterexample:
  "w_parent (widgets ex_hidden_chain 2) = Some 1 \<and>
   w_parent (widgets ex_hidden_chain 1) = Some 0 \<and>
   w_parent (widgets ex_hidden_chain 0) = None \<and>
   w_layout (widgets ex_hidden_chain 1) = None \<and>
   w_layout (widgets ex_hidden_chain 0) = None \<and>
   pending ex_hidden_chain 0 = [] \<and>
   map_result (\<lambda>s. (pending s 1, pending s 0)) (updateGeometry 3 2 False ex_hidden_chain) =
     Ok ([Message ''layout-request''], []) \<and>
   map_result (\<lambda>s. (pending s 1, pending s 0)) (updateGeometry 3 2 True ex_hidden_chain) =
     Ok ([Message ''layout-request''], [])"
  by (simp add: ex_hidden_chain_def initial_def new_Widget_def numeral_3_eq_3 isHidden_def
      testFlag_def postMessage_def compressMessage_def)

section \<open>The layout setter\<close>

lemma ex_installed_reached:
  "set_layout (sendMessage 1) 0 (Some 0) (initial css0) = Ok ex_installed"
  by (simp add: set_layout_def ex_installed_def initial_def new_Widget_def testFlag_def
      processMessage_ignored layout_set_parent_def installMessageFilter_def updW_def updL_def)

text \<open>
  Claim C9. Assigning to \<open>layout\<close> the layout that is installed (or null when none is)
  returns at once: the state is unchanged, so nothing is disposed, no filter changes
  and no message is delivered; this holds also when \<open>DisallowLayoutChange\<close> is set.
\<close>

theorem set_layout_same:
  "set_layout send w (w_layout (widgets s w)) s = Ok s \<and>
   set_layout send w (w_layout (widgets (setFlag w DisallowLayoutChange s) w))
     (setFlag w DisallowLayoutChange s) = Ok (setFlag w DisallowLayoutChange s)"
  by (simp add: set_layout_def)

theorem set_layout_same_witness:
  "set_layout (sendMessage 1) 0 (Some 0) ex_installed = Ok ex_installed \<and>
   set_layout (sendMessage 1) 0 (Some 0) (setFlag 0 DisallowLayoutChange ex_installed) =
     Ok (setFlag 0 DisallowLayoutChange ex_installed)"
  using set_layout_same [of "sendMessage 1" 0 ex_installed]
  by (simp add: ex_installed_def layout_set_parent_def installMessageFilter_def setFlag_def)

text \<open>
  Claim C7. Assigning a layout different from the installed one throws when
  \<open>DisallowLayoutChange\<close> is set, and throws when the layout has a parent already;
  the state at the throw is the state before the call. Otherwise the old layout is
  removed from the filters and disposed, the new one (if not null) is stored, installed
  as a filter and given this widget as parent, and \<open>layout-changed\<close> is delivered to
  the widget last.
\<close>

theorem set_layout_contract:
  assumes "layout \<noteq> w_layout (widgets s w)"
  shows "(testFlag s w DisallowLayoutChange \<longrightarrow>
            set_layout send w layout s = Throw (Error ''cannot change widget layout'') s) \<and>
         (\<not> testFlag s w DisallowLayoutChange \<and>
            (\<exists>l. layout = Some l \<and> l_parent (layouts s l) \<noteq> None) \<longrightarrow>
            set_layout send w layout s =
              Throw (Error ''layout already installed on a widget'') s) \<and>
         (\<not> testFlag s w DisallowLayoutChange \<and>
            (\<forall>l. layout = Some l \<longrightarrow> l_parent (layouts s l) = None) \<longrightarrow>
            (\<exists>s'. set_layout (sendMessage (Suc n)) w layout s = Ok s' \<and>
               delivered s' = delivered s @ [(w, Message ''layout-changed'')] \<and>
               w_layout (widgets s' w) = layout \<and>
               (\<forall>ol. w_layout (widgets s w) = Some ol \<longrightarrow>
                  ol \<notin> set (filters s' w) \<and> l_disposed (layouts s' ol)) \<and>
               (\<forall>l. layout = Some l \<longrightarrow>
                  filters s' w = removeAll (the (w_layout (widgets s w))) (filters s w) @ [l] \<or>
                  filters s' w = filters s w @ [l]) \<and>
               (\<forall>l. layout = Some l \<longrightarrow>
                  l \<in> set (filters s' w) \<and> l_parent (layouts s' l) = Some w)))"
proof (intro conjI impI)
  assume "testFlag s w DisallowLayoutChange"
  then show "set_layout send w layout s = Throw (Error ''cannot change widget layout'') s"
    using assms by (simp add: set_layout_def)
next
  assume "\<not> testFlag s w DisallowLayoutChange \<and>
    (\<exists>l. layout = Some l \<and> l_parent (layouts s l) \<noteq> None)"
  then show "set_layout send w layout s =
      Throw (Error ''layout already installed on a widget'') s"
    using assms by (auto simp add: set_layout_def)
next
  assume "\<not> testFlag s w DisallowLayoutChange \<and>
    (\<forall>l. layout = Some l \<longrightarrow> l_parent (layouts s l) = None)"
  then show "\<exists>s'. set_layout (sendMessage (Suc n)) w layout s = Ok s' \<and>
               delivered s' = delivered s @ [(w, Message ''layout-changed'')] \<and>
               w_layout (widgets s' w) = layout \<and>
               (\<forall>ol. w_layout (widgets s w) = Some ol \<longrightarrow>
                  ol \<notin> set (filters s' w) \<and> l_disposed (layouts s' ol)) \<and>
               (\<forall>l. layout = Some l \<longrightarrow>
                  filters s' w = removeAll (the (w_layout (widgets s w))) (filters s w) @ [l] \<or>
                  filters s' w = filters s w @ [l]) \<and>
               (\<forall>l. layout = Some l \<longrightarrow>
                  l \<in> set (filters s' w) \<and> l_parent (layouts s' l) = Some w)"
    using assms
    by (cases layout; cases "w_layout (widgets s w)")
       (auto simp add: set_layout_def processMessage_ignored layout_dispose_def
          layout_set_parent_def installMessageFilter_def removeMessageFilter_def)
qed

theorem set_layout_contract_witness:
  "Some 0 \<noteq> w_layout (widgets ex_installed 1) \<and>
   \<not> testFlag ex_installed 1 DisallowLayoutChange \<and>
   l_parent (layouts ex_installed 0) = Some 0 \<and>
   set_layout (sendMessage 1) 1 (Some 0) ex_installed =
     Throw (Error ''layout already installed on a widget'') ex_installed \<and>
   w_layout (widgets ex_installed 0) = Some 0 \<and>
   \<not> l_disposed (layouts ex_installed 0)"
proof -
  have a: "Some 0 \<noteq> w_layout (widgets ex_installed 1)"
    by (simp add: ex_installed_def initial_def new_Widget_def layout_set_parent_def
        installMessageFilter_def)
  have b: "\<not> testFlag ex_installed 1 DisallowLayoutChange"
    by (simp add: ex_installed_def initial_def new_Widget_def layout_set_parent_def
        installMessageFilter_def testFlag_def)
  have c: "l_parent (layouts ex_installed 0) = Some 0"
    by (simp add: ex_installed_def initial_def layout_set_parent_def installMessageFilter_def)
  have d: "w_layout (widgets ex_installed 0) = Some 0 \<and> \<not> l_disposed (layouts ex_installed 0)"
    by (simp add: ex_installed_def initial_def layout_set_parent_def installMessageFilter_def)
  show ?thesis
    using set_layout_contract [OF a, of "sendMessage 1" 0] a b c d by simp
qed

section \<open>The children array and the message queue\<close>

lemma ex_family_reached:
  "seq (set_parent (sendMessage 1) 1 (Some 0) (initial css0)) (set_parent (sendMessage 1) 2 (Some 0))
     = Ok ex_family"
  by (simp add: set_parent_def ex_family_def initial_def new_Widget_def new_element_def
      processMessage_def processMessage_ignored onChildAdded_def isAttached_def testFlag_def node_appendChild_def
       appendChild_def updW_def updE_def updA_def Let_def fun_upd_twist)

text \<open>
  Claim C10. \<open>children()\<close> returns a newly allocated array holding the elements of the
  child list in their order (the setter of \<open>parent\<close> appends, see \<open>ex_family_reached\<close>).
  The widgets and every widget's own child list are unchanged by the call and by any
  later write \<open>f\<close> to the returned array; a second call returns another array, with the
  same elements, also after the first one was written.
\<close>

theorem children_fresh_copy:
  "fst (children w s) = Sliced (nextArray s) \<and>
   arrays (snd (children w s)) (fst (children w s)) = arrays s (ChildrenOf w) \<and>
   widgets (snd (children w s)) = widgets s \<and>
   arrays (snd (children w s)) (ChildrenOf v) = arrays s (ChildrenOf v) \<and>
   widgets (updA (fst (children w s)) f (snd (children w s))) = widgets s \<and>
   arrays (updA (fst (children w s)) f (snd (children w s))) (ChildrenOf v) =
     arrays s (ChildrenOf v) \<and>
   fst (children w (snd (children w s))) \<noteq> fst (children w s) \<and>
   arrays (snd (children w (snd (children w s)))) (fst (children w (snd (children w s)))) =
     arrays (snd (children w (snd (children w s)))) (fst (children w s)) \<and>
   arrays (snd (children w (updA (fst (children w s)) f (snd (children w s)))))
      (fst (children w (updA (fst (children w s)) f (snd (children w s))))) =
     arrays s (ChildrenOf w)"
  by (simp add: children_def Let_def)

theorem children_fresh_copy_witness:
  "arrays (snd (children 0 ex_family)) (fst (children 0 ex_family)) = [Some 1, Some 2] \<and>
   arrays (updA (fst (children 0 ex_family)) (\<lambda>a. a[0 := None]) (snd (children 0 ex_family)))
     (ChildrenOf 0) = [Some 1, Some 2]"
proof -
  have e: "arrays ex_family (ChildrenOf 0) = [Some 1, Some 2]"
    by (simp add: ex_family_def)
  show ?thesis
    using children_fresh_copy [of 0 ex_family 0 "\<lambda>a. a[0 := None]"] unfolding e by blast
qed

lemma compressMessage_iff:
  "compressMessage m pend =
     (mtype m = ''layout-request'' \<and> (\<exists>other \<in> set pend. mtype other = ''layout-request''))"
  by (simp add: compressMessage_def list_ex_iff)

lemma postMessage_pending_other: "h' \<noteq> h \<Longrightarrow> pending (postMessage h m s) h' = pending s h'"
  by (simp add: postMessage_def)

lemma postMessage_at_most_one:
  assumes "layout_requests (pending s h') \<le> Suc 0"
  shows "layout_requests (pending (postMessage h m s) h') \<le> Suc 0"
proof (cases "compressMessage m (pending s h)")
  case True
  then show ?thesis using assms by (simp add: postMessage_def)
next
  case False
  then have "mtype m = ''layout-request'' \<Longrightarrow>
      filter (\<lambda>m. mtype m = ''layout-request'') (pending s h) = []"
    by (auto simp add: compressMessage_iff filter_empty_conv)
  then show ?thesis
    using False assms by (auto simp add: postMessage_def layout_requests_def)
qed

lemma post_n_at_most_one:
  "layout_requests (pending s h') \<le> Suc 0 \<Longrightarrow>
   layout_requests (pending ((postMessage h m ^^ N) s) h') \<le> Suc 0"
  by (induction N) (simp_all add: postMessage_at_most_one)

lemma post_n_from_empty:
  "pending s h = [] \<Longrightarrow>
   (postMessage h (Message ''layout-request'') ^^ N) s =
     (if N = 0 then s else s\<lparr>pending := (pending s)(h := [Message ''layout-request''])\<rparr>)"
proof (induction N)
  case 0 then show ?case by simp
next
  case (Suc N)
  then show ?case by (cases N) (simp_all add: postMessage_def compressMessage_def)
qed

text \<open>
  Claim C8. \<open>compressMessage\<close> returns true exactly when the message is a
  \<open>layout-request\<close> and one is pending. Hence a queue with at most one
  \<open>layout-request\<close> keeps at most one however many are posted, and \<open>N\<close> of them posted
  to an empty queue are delivered as one (none when \<open>N = 0\<close>) when the queue drains.
\<close>

theorem layout_request_compression:
  "compressMessage m pend =
     (mtype m = ''layout-request'' \<and> (\<exists>other \<in> set pend. mtype other = ''layout-request'')) \<and>
   (layout_requests (pending s h) \<le> 1 \<longrightarrow>
      layout_requests (pending ((postMessage h (Message ''layout-request'') ^^ N) s) h) \<le> 1) \<and>
   (pending s h = [] \<longrightarrow>
      (\<exists>s'. drainQueue (sendMessage (Suc k)) h
               ((postMessage h (Message ''layout-request'') ^^ N) s) = Ok s' \<and>
            delivered s' = delivered s @
              (if N = 0 then [] else [(h, Message ''layout-request'')]) \<and>
            pending s' h = []))"
  by (auto simp add: compressMessage_iff post_n_at_most_one post_n_from_empty drainQueue_def
      processMessage_ignored)

theorem layout_request_compression_witness:
  "compressMessage (Message ''layout-request'') [Message ''layout-request''] \<and>
   \<not> compressMessage (Message ''layout-request'') [Message ''close''] \<and>
   \<not> compressMessage (Message ''close'') [Message ''close''] \<and>
   pending (initial css0) 0 = [] \<and>
   (\<exists>s'. drainQueue (sendMessage 1) 0
               ((postMessage 0 (Message ''layout-request'') ^^ 3) (initial css0)) = Ok s' \<and>
            delivered s' = [(0, Message ''layout-request'')])"
proof -
  have e: "pending (initial css0) 0 = []" "delivered (initial css0) = []"
    by (simp_all add: initial_def)
  show ?thesis
    using layout_request_compression [of "Message ''layout-request''" "[Message ''layout-request'']"
        "initial css0" 0 3 0]
      layout_request_compression [of "Message ''layout-request''" "[Message ''close'']"
        "initial css0" 0 3 0]
      layout_request_compression [of "Message ''close''" "[Message ''close'']"
        "initial css0" 0 3 0]
    by (auto simp add: e)
qed


section \<open>Claim C1: the visibility invariant after a public operation\<close>

text \<open>
  Claim C1. After every public operation the visibility invariant should hold: a widget is
  visible only if it is attached, not hidden, and its parent is null or visible.

  The parent setter does not keep it. Widget 0 is a fresh root attached to a host, which
  sets \<open>IsAttached\<close> and \<open>IsVisible\<close>. Assigning the fresh, unattached widget 1 as its parent
  sends \<open>child-added\<close> to widget 1, whose handler, widget 1 being unattached, only moves
  the node of widget 0 under the node of widget 1, out of the host. No \<open>before-detach\<close> or
  \<open>after-detach\<close> is sent, so widget 0 keeps \<open>IsAttached\<close> and \<open>IsVisible\<close> below a parent
  that is neither attached nor visible.
\<close>

theorem reparented_attached_root_stays_visible:
  "map_result
     (\<lambda>s. (isVisible s 0, isAttached s 0, w_parent (widgets s 0), isVisible s 1, isAttached s 1,
           parentNode (elems s (WidgetNode 0))))
     (seq (attach (sendMessage 1) 0 (HostElement 0) (initial css0))
          (set_parent (sendMessage 2) 0 (Some 1))) =
   Ok (True, True, Some 1, False, False, Some (WidgetNode 1))"
  by (simp add: attach_def set_parent_def initial_def new_Widget_def new_element_def
      processMessage_def onChildAdded_def node_appendChild_def isHidden_def isVisible_def
      isAttached_def testFlag_def numeral_2_eq_2 Let_def)

end
